theory Spec2Isabelle
  imports Main "HOL-Library.AList"
begin

section \<open>Python strings and integers as the program uses them\<close>

text \<open>
  A Python \<open>str\<close> is modelled as a \<open>string\<close> whose characters are the code points
  below 256; a Python \<open>int\<close> is an unbounded \<open>int\<close>.  The conversions between the two
  are total on integers (the interpreter's optional limit on the number of digits of a
  converted integer is not modelled).
\<close>

subsection \<open>\<open>str(n)\<close> for an integer\<close>

definition digit_char :: "nat \<Rightarrow> char" where
  "digit_char d = ''0123456789'' ! d"

function str_nat :: "nat \<Rightarrow> string" where
  "str_nat n = (if n < 10 then [digit_char n] else str_nat (n div 10) @ [digit_char (n mod 10)])"
  by pat_completeness auto
termination
  by (relation "measure id") auto

declare str_nat.simps [simp del]

definition py_str :: "int \<Rightarrow> string" where
  "py_str i = (if i < 0 then CHR ''-'' # str_nat (nat (- i)) else str_nat (nat i))"

subsection \<open>\<open>s.strip()\<close>, \<open>s.split(sep)\<close>, \<open>sep.join(xs)\<close>, \<open>startswith\<close>, \<open>endswith\<close>\<close>

text \<open>The characters for which \<open>str.isspace\<close> holds, among the code points below 256:
  TAB, LF, VT, FF, CR, FS, GS, RS, US, SPACE, NEL (0x85) and NBSP (0xA0).\<close>

definition is_space :: "char \<Rightarrow> bool" where
  "is_space c = ((of_char c :: nat) \<in> {9, 10, 11, 12, 13, 28, 29, 30, 31, 32, 133, 160})"

definition py_strip :: "string \<Rightarrow> string" where
  "py_strip s = rev (dropWhile is_space (rev (dropWhile is_space s)))"

text \<open>\<open>s.split(sep)\<close> with a one-character separator: cuts at every occurrence, and
  always returns at least one piece.\<close>

fun py_split :: "char \<Rightarrow> string \<Rightarrow> string list" where
  "py_split sep [] = [[]]"
| "py_split sep (c # cs) =
     (if c = sep then [] # py_split sep cs
      else (case py_split sep cs of [] \<Rightarrow> [[c]] | w # ws \<Rightarrow> (c # w) # ws))"


definition startswith :: "string \<Rightarrow> char \<Rightarrow> bool" where
  "startswith s c = (case s of [] \<Rightarrow> False | x # _ \<Rightarrow> x = c)"

definition endswith :: "string \<Rightarrow> char \<Rightarrow> bool" where
  "endswith s c = (case rev s of [] \<Rightarrow> False | x # _ \<Rightarrow> x = c)"

subsection \<open>\<open>int(s)\<close> for a string\<close>

text \<open>
  \<open>int(s)\<close> strips surrounding whitespace, accepts one optional sign, then one or more
  decimal digits in which single underscores may separate digits; anything else raises
  \<open>ValueError\<close>, here \<open>None\<close>.
\<close>

definition digit_val :: "char \<Rightarrow> nat option" where
  "digit_val =
     map_of [(CHR ''0'', 0), (CHR ''1'', 1), (CHR ''2'', 2), (CHR ''3'', 3), (CHR ''4'', 4),
             (CHR ''5'', 5), (CHR ''6'', 6), (CHR ''7'', 7), (CHR ''8'', 8), (CHR ''9'', 9)]"

fun parse_digits :: "nat \<Rightarrow> string \<Rightarrow> nat option" where
  "parse_digits acc [] = Some acc"
| "parse_digits acc [c] =
     (case digit_val c of Some d \<Rightarrow> Some (acc * 10 + d) | None \<Rightarrow> None)"
| "parse_digits acc (c # d # cs) =
     (case digit_val c of
        Some v \<Rightarrow> parse_digits (acc * 10 + v) (d # cs)
      | None \<Rightarrow>
          (if c = CHR ''_'' then
             (case digit_val d of Some v \<Rightarrow> parse_digits (acc * 10 + v) cs | None \<Rightarrow> None)
           else None))"

definition parse_nat :: "string \<Rightarrow> nat option" where
  "parse_nat s =
     (case s of [] \<Rightarrow> None
      | c # cs \<Rightarrow> (case digit_val c of Some v \<Rightarrow> parse_digits v cs | None \<Rightarrow> None))"

definition py_int :: "string \<Rightarrow> int option" where
  "py_int s =
     (case py_strip s of [] \<Rightarrow> None
      | c # cs \<Rightarrow>
          (if c = CHR ''-'' then map_option (\<lambda>n. - int n) (parse_nat cs)
           else if c = CHR ''+'' then map_option int (parse_nat cs)
           else map_option int (parse_nat (c # cs))))"

section \<open>The sparse matrix\<close>

text \<open>
  \<open>elements\<close> is a Python dictionary from the key string \<open>"row,col"\<close> to the value.  A
  dictionary keeps its keys in insertion order, and \<open>__str__\<close> and the loops of the
  operations iterate in that order, so it is an association list: storing under a key
  that is present replaces the value in place, storing under a new key appends
  (\<^const>\<open>AList.update\<close>).
\<close>

record SparseMatrix =
  elements :: "(string \<times> int) list"
  num_rows :: int
  num_cols :: int

text \<open>Every \<open>raise\<close> of the source is a constructor; all but the first are \<open>ValueError\<close>
  in Python, with the message built from the path or the line carried here.\<close>

datatype error =
    FileNotFound string          \<comment> \<open>\<open>FileNotFoundError("File not found: ...")\<close>\<close>
  | TooFewLines string           \<comment> \<open>"File ... must contain at least two lines for dimensions."\<close>
  | InvalidDimensions string     \<comment> \<open>"Invalid matrix dimensions in ..."\<close>
  | InvalidElementFormat string  \<comment> \<open>"Invalid format for matrix element: line"\<close>
  | InvalidElementEntry string   \<comment> \<open>"Invalid matrix element format in file: line"\<close>
  | CannotAdd                    \<comment> \<open>"Cannot add matrices of different dimensions."\<close>
  | CannotSubtract               \<comment> \<open>"Cannot subtract matrices of different dimensions."\<close>
  | CannotMultiply               \<comment> \<open>"Cannot multiply: column count of the first matrix ..."\<close>
  | BadKey string                \<comment> \<open>the uncaught \<open>ValueError\<close> of \<open>row, col = map(int, key.split(','))\<close>\<close>

definition SparseMatrix_init :: "int \<Rightarrow> int \<Rightarrow> SparseMatrix" where
  "SparseMatrix_init n_rows n_cols = \<lparr>elements = [], num_rows = n_rows, num_cols = n_cols\<rparr>"

text \<open>The key \<open>f"{row},{col}"\<close>.\<close>

definition key_of :: "int \<Rightarrow> int \<Rightarrow> string" where
  "key_of row col = py_str row @ '','' @ py_str col"

definition set_element :: "SparseMatrix \<Rightarrow> int \<Rightarrow> int \<Rightarrow> int \<Rightarrow> SparseMatrix" where
  "set_element self row col val =
     (let self1 = (if row \<ge> num_rows self then self\<lparr>num_rows := row + 1\<rparr> else self);
          self2 = (if col \<ge> num_cols self1 then self1\<lparr>num_cols := col + 1\<rparr> else self1)
      in self2\<lparr>elements := AList.update (key_of row col) val (elements self2)\<rparr>)"

definition get_element :: "SparseMatrix \<Rightarrow> int \<Rightarrow> int \<Rightarrow> int" where
  "get_element self row col =
     (case map_of (elements self) (key_of row col) of None \<Rightarrow> 0 | Some v \<Rightarrow> v)"

text \<open>\<open>row, col = map(int, key.split(','))\<close>: exactly two pieces, each an integer.\<close>

definition parse_key :: "string \<Rightarrow> error + (int \<times> int)" where
  "parse_key key =
     (case py_split (CHR '','') key of
        [a, b] \<Rightarrow>
          (case py_int a of None \<Rightarrow> Inl (BadKey key)
           | Some row \<Rightarrow> (case py_int b of None \<Rightarrow> Inl (BadKey key) | Some col \<Rightarrow> Inr (row, col)))
      | _ \<Rightarrow> Inl (BadKey key))"

subsection \<open>The arithmetic operations\<close>

text \<open>The two loops of \<open>add\<close>, over \<open>self.elements.items()\<close> and
  \<open>other.elements.items()\<close>; \<open>result\<close> is the matrix being built.\<close>

fun add_copy :: "(string \<times> int) list \<Rightarrow> SparseMatrix \<Rightarrow> error + SparseMatrix" where
  "add_copy [] result = Inr result"
| "add_copy ((key, val) # items) result =
     (case parse_key key of
        Inl e \<Rightarrow> Inl e
      | Inr (row, col) \<Rightarrow> add_copy items (set_element result row col val))"

fun add_other :: "(string \<times> int) list \<Rightarrow> SparseMatrix \<Rightarrow> error + SparseMatrix" where
  "add_other [] result = Inr result"
| "add_other ((key, val) # items) result =
     (case parse_key key of
        Inl e \<Rightarrow> Inl e
      | Inr (row, col) \<Rightarrow>
          add_other items (set_element result row col (get_element result row col + val)))"

definition add :: "SparseMatrix \<Rightarrow> SparseMatrix \<Rightarrow> error + SparseMatrix" where
  "add self other =
     (if num_rows self \<noteq> num_rows other \<or> num_cols self \<noteq> num_cols other then Inl CannotAdd
      else
        (case add_copy (elements self) (SparseMatrix_init (num_rows self) (num_cols self)) of
           Inl e \<Rightarrow> Inl e
         | Inr result \<Rightarrow> add_other (elements other) result))"

text \<open>The loop of \<open>subtract\<close>, over \<open>other.elements.items()\<close> only.\<close>

fun subtract_loop ::
  "SparseMatrix \<Rightarrow> (string \<times> int) list \<Rightarrow> SparseMatrix \<Rightarrow> error + SparseMatrix" where
  "subtract_loop self [] result = Inr result"
| "subtract_loop self ((key, val) # items) result =
     (case parse_key key of
        Inl e \<Rightarrow> Inl e
      | Inr (row, col) \<Rightarrow>
          subtract_loop self items (set_element result row col (get_element self row col - val)))"

definition subtract :: "SparseMatrix \<Rightarrow> SparseMatrix \<Rightarrow> error + SparseMatrix" where
  "subtract self other =
     (if num_rows self \<noteq> num_rows other \<or> num_cols self \<noteq> num_cols other
      then Inl CannotSubtract
      else subtract_loop self (elements other)
             (SparseMatrix_init (num_rows self) (num_cols self)))"

text \<open>The nested loops of \<open>multiply\<close>: the inner one over \<open>other.elements.items()\<close> for
  a fixed entry \<open>(row1, col1) -> value1\<close> of \<open>self\<close>, the outer one over
  \<open>self.elements.items()\<close>.\<close>

fun multiply_inner ::
  "int \<Rightarrow> int \<Rightarrow> int \<Rightarrow> (string \<times> int) list \<Rightarrow> SparseMatrix \<Rightarrow> error + SparseMatrix" where
  "multiply_inner row1 col1 value1 [] result = Inr result"
| "multiply_inner row1 col1 value1 ((key2, value2) # items2) result =
     (case parse_key key2 of
        Inl e \<Rightarrow> Inl e
      | Inr (row2, col2) \<Rightarrow>
          multiply_inner row1 col1 value1 items2
            (if col1 = row2
             then set_element result row1 col2 (get_element result row1 col2 + value1 * value2)
             else result))"

fun multiply_outer ::
  "(string \<times> int) list \<Rightarrow> (string \<times> int) list \<Rightarrow> SparseMatrix \<Rightarrow> error + SparseMatrix" where
  "multiply_outer [] items2 result = Inr result"
| "multiply_outer ((key1, value1) # items1) items2 result =
     (case parse_key key1 of
        Inl e \<Rightarrow> Inl e
      | Inr (row1, col1) \<Rightarrow>
          (case multiply_inner row1 col1 value1 items2 result of
             Inl e \<Rightarrow> Inl e
           | Inr result' \<Rightarrow> multiply_outer items1 items2 result'))"

definition multiply :: "SparseMatrix \<Rightarrow> SparseMatrix \<Rightarrow> error + SparseMatrix" where
  "multiply self other =
     (if num_cols self \<noteq> num_rows other then Inl CannotMultiply
      else multiply_outer (elements self) (elements other)
             (SparseMatrix_init (num_rows self) (num_cols other)))"

subsection \<open>Reading and writing the text form\<close>

text \<open>
  The file system is a map from a path to the text of the file there.  A file opened
  for reading in text mode has \<open>\r\n\<close> and a lone \<open>\r\<close> translated to \<open>\n\<close>;
  \<open>readlines\<close> cuts after every \<open>\n\<close> and keeps it at the end of its line.
\<close>

definition LF :: char where "LF = CHR 0x0A"
definition CR :: char where "CR = CHR 0x0D"

fun universal_newlines :: "string \<Rightarrow> string" where
  "universal_newlines [] = []"
| "universal_newlines [c] = (if c = CR then [LF] else [c])"
| "universal_newlines (c # d # cs) =
     (if c = CR then
        (if d = LF then LF # universal_newlines cs else LF # universal_newlines (d # cs))
      else c # universal_newlines (d # cs))"

fun readlines :: "string \<Rightarrow> string list" where
  "readlines [] = []"
| "readlines (c # cs) =
     (if c = LF then [c] # readlines cs
      else (case readlines cs of [] \<Rightarrow> [[c]] | l # ls \<Rightarrow> (c # l) # ls))"

text \<open>\<open>file_path.replace("\\", "/")\<close>\<close>

definition replace_backslash :: "string \<Rightarrow> string" where
  "replace_backslash p = map (\<lambda>c. if c = CHR 0x5C then CHR ''/'' else c) p"

definition parse_matrix_file :: "(string \<rightharpoonup> string) \<Rightarrow> string \<Rightarrow> error + string list" where
  "parse_matrix_file fs file_path =
     (case fs (replace_backslash file_path) of
        None \<Rightarrow> Inl (FileNotFound file_path)
      | Some text \<Rightarrow>
          Inr (map py_strip
                (filter (\<lambda>line. py_strip line \<noteq> []) (readlines (universal_newlines text)))))"

text \<open>\<open>int(line.split('=')[1])\<close>, with \<open>IndexError\<close> and \<open>ValueError\<close> as \<open>None\<close>.\<close>

definition parse_dimension :: "string \<Rightarrow> int option" where
  "parse_dimension line =
     (case py_split (CHR ''='') line of _ # x # _ \<Rightarrow> py_int x | _ \<Rightarrow> None)"

text \<open>The body of the loop over \<open>lines[2:]\<close> up to the call of \<open>set_element\<close>.\<close>

definition parse_element_line :: "string \<Rightarrow> error + (int \<times> int \<times> int)" where
  "parse_element_line line =
     (if \<not> startswith line (CHR ''('') \<or> \<not> endswith line (CHR '')'')
      then Inl (InvalidElementFormat line)
      else
        (case py_split (CHR '','') (butlast (tl line)) of
           e0 # e1 # e2 # _ \<Rightarrow>
             (case py_int (py_strip e0) of None \<Rightarrow> Inl (InvalidElementEntry line)
              | Some row \<Rightarrow>
                 (case py_int (py_strip e1) of None \<Rightarrow> Inl (InvalidElementEntry line)
                  | Some col \<Rightarrow>
                     (case py_int (py_strip e2) of None \<Rightarrow> Inl (InvalidElementEntry line)
                      | Some val \<Rightarrow> Inr (row, col, val))))
         | _ \<Rightarrow> Inl (InvalidElementEntry line)))"

fun from_file_loop :: "string list \<Rightarrow> SparseMatrix \<Rightarrow> error + SparseMatrix" where
  "from_file_loop [] matrix = Inr matrix"
| "from_file_loop (line # lines) matrix =
     (case parse_element_line line of
        Inl e \<Rightarrow> Inl e
      | Inr (row, col, val) \<Rightarrow> from_file_loop lines (set_element matrix row col val))"

definition from_file :: "(string \<rightharpoonup> string) \<Rightarrow> string \<Rightarrow> error + SparseMatrix" where
  "from_file fs matrix_file_path =
     (case parse_matrix_file fs matrix_file_path of
        Inl e \<Rightarrow> Inl e
      | Inr lines \<Rightarrow>
          (if length lines < 2 then Inl (TooFewLines matrix_file_path)
           else
             (case parse_dimension (lines ! 0) of
                None \<Rightarrow> Inl (InvalidDimensions matrix_file_path)
              | Some n_rows \<Rightarrow>
                 (case parse_dimension (lines ! 1) of
                    None \<Rightarrow> Inl (InvalidDimensions matrix_file_path)
                  | Some n_cols \<Rightarrow>
                      from_file_loop (drop 2 lines) (SparseMatrix_init n_rows n_cols)))))"




section \<open>Predicates used in the statements\<close>

text \<open>The characters of \<open>str(n)\<close>.\<close>

definition is_digit :: "char \<Rightarrow> bool" where
  "is_digit c = (digit_val c \<noteq> None)"

definition is_numchar :: "char \<Rightarrow> bool" where
  "is_numchar c = (is_digit c \<or> c = CHR ''-'')"

text \<open>A key that \<open>set_element\<close> can have written: it is \<open>f"{row},{col}"\<close> for the two
  integers read back from it.\<close>

definition valid_key :: "string \<Rightarrow> bool" where
  "valid_key key = (case parse_key key of Inl _ \<Rightarrow> False | Inr (row, col) \<Rightarrow> key_of row col = key)"

text \<open>What a Python dictionary filled by \<open>set_element\<close> is: no key twice, every key
  valid.\<close>

definition well_formed :: "SparseMatrix \<Rightarrow> bool" where
  "well_formed m =
     (distinct (map fst (elements m)) \<and> list_all (\<lambda>(key, val). valid_key key) (elements m))"

text \<open>Every stored coordinate lies below the declared shape.\<close>

definition in_bounds :: "SparseMatrix \<Rightarrow> bool" where
  "in_bounds m =
     list_all (\<lambda>(key, val). case parse_key key of Inl _ \<Rightarrow> False
                 | Inr (row, col) \<Rightarrow> row < num_rows m \<and> col < num_cols m) (elements m)"

text \<open>A sequence of calls \<open>m.set_element(row, col, value)\<close>, in order.\<close>

fun set_elements :: "SparseMatrix \<Rightarrow> (int \<times> int \<times> int) list \<Rightarrow> SparseMatrix" where
  "set_elements m [] = m"
| "set_elements m ((row, col, val) # ws) = set_elements (set_element m row col val) ws"

text \<open>The matrices the program can build: by the constructor, by \<open>set_element\<close>, by
  \<open>from_file\<close> and by the three operations on matrices it has built.\<close>

inductive produced :: "SparseMatrix \<Rightarrow> bool" where
  by_init: "produced (SparseMatrix_init n_rows n_cols)"
| by_set_element: "produced m \<Longrightarrow> produced (set_element m row col val)"
| by_from_file: "from_file fs path = Inr m \<Longrightarrow> produced m"
| by_add: "produced a \<Longrightarrow> produced b \<Longrightarrow> add a b = Inr m \<Longrightarrow> produced m"
| by_subtract: "produced a \<Longrightarrow> produced b \<Longrightarrow> subtract a b = Inr m \<Longrightarrow> produced m"
| by_multiply: "produced a \<Longrightarrow> produced b \<Longrightarrow> multiply a b = Inr m \<Longrightarrow> produced m"

subsection \<open>Concrete inputs\<close>

text \<open>The two matrices of the worked example: \<open>A\<close> with the entries
  \<open>(0,0,1), (0,1,2), (1,0,3), (1,1,4)\<close> and \<open>B\<close>, the 2 by 2 identity.\<close>

definition example_A :: SparseMatrix where
  "example_A = set_elements (SparseMatrix_init 2 2) [(0, 0, 1), (0, 1, 2), (1, 0, 3), (1, 1, 4)]"

definition example_B :: SparseMatrix where
  "example_B = set_elements (SparseMatrix_init 2 2) [(0, 0, 1), (1, 1, 1)]"

text \<open>Three files: one whose element line lies outside the shape of the header, one
  whose element line has two fields, one whose element line has a fourth field.\<close>

definition example_grown_text :: string where
  "example_grown_text = ''rows=2'' @ [LF] @ ''cols=2'' @ [LF] @ ''(5, 7, 3)''"

definition example_short_text :: string where
  "example_short_text = ''rows=2'' @ [LF] @ ''cols=2'' @ [LF] @ ''(1,2)''"

definition example_extra_text :: string where
  "example_extra_text = ''rows=2'' @ [LF] @ ''cols=4'' @ [LF] @ ''(1,2,3,x)''"

definition example_fs :: "string \<rightharpoonup> string" where
  "example_fs = [''grown.txt'' \<mapsto> example_grown_text, ''short.txt'' \<mapsto> example_short_text,
                 ''extra.txt'' \<mapsto> example_extra_text]"

text \<open>A 3 by 3 matrix.\<close>

definition example_C :: SparseMatrix where
  "example_C = set_elements (SparseMatrix_init 3 3) [(2, 2, 9)]"

subsection \<open>Notions of the proofs\<close>

text \<open>What the entry \<open>key1 -> value1\<close> of \<open>self\<close> adds to the cell \<open>(i, j)\<close> of the
  product, \<open>items2\<close> being the entries of \<open>other\<close>.\<close>

definition contribution ::
  "(string \<times> int) list \<Rightarrow> int \<Rightarrow> int \<Rightarrow> string \<times> int \<Rightarrow> int" where
  "contribution items2 i j = (\<lambda>(key1, value1).
     case parse_key key1 of
       Inl _ \<Rightarrow> 0
     | Inr (row1, col1) \<Rightarrow>
         if row1 = i
         then value1 * (case map_of items2 (key_of col1 j) of None \<Rightarrow> 0 | Some b \<Rightarrow> b) else 0)"



section \<open>Integers and their decimal text\<close>

lemma digit_val_digit_char: "d < 10 \<Longrightarrow> digit_val (digit_char d) = Some d"
proof -
  assume "d < 10"
  then have "d \<in> {0,1,2,3,4,5,6,7,8,9}" by auto
  then show ?thesis by (auto simp: digit_val_def digit_char_def)
qed

lemma is_digit_digit_char: "d < 10 \<Longrightarrow> is_digit (digit_char d)"
  by (simp add: is_digit_def digit_val_digit_char)

lemma is_digit_cases:
  "is_digit c \<longleftrightarrow> c \<in> set ''0123456789''"
  by (auto simp: is_digit_def digit_val_def)

lemma parse_digits_snoc:
  "\<forall>x \<in> set s. is_digit x \<Longrightarrow> digit_val c = Some d \<Longrightarrow>
   parse_digits acc (s @ [c]) = map_option (\<lambda>x. x * 10 + d) (parse_digits acc s)"
proof (induction acc s rule: parse_digits.induct)
  case (1 acc)
  then show ?case by simp
next
  case (2 acc a)
  then show ?case by (auto simp: is_digit_def)
next
  case (3 acc a b cs)
  then show ?case by (auto simp: is_digit_def)
qed

lemma str_nat_digits: "\<forall>x \<in> set (str_nat n). is_digit x"
proof (induction n rule: str_nat.induct)
  case (1 n)
  show ?case
  proof (cases "n < 10")
    case True
    then show ?thesis by (simp add: str_nat.simps is_digit_digit_char)
  next
    case False
    with 1 show ?thesis
      by (subst str_nat.simps) (auto simp: is_digit_digit_char)
  qed
qed

lemma str_nat_nonempty: "str_nat n \<noteq> []"
  by (subst str_nat.simps) simp

lemma parse_nat_snoc:
  "s \<noteq> [] \<Longrightarrow> \<forall>x \<in> set s. is_digit x \<Longrightarrow> digit_val c = Some d \<Longrightarrow>
   parse_nat (s @ [c]) = map_option (\<lambda>x. x * 10 + d) (parse_nat s)"
  by (cases s) (auto simp: parse_nat_def is_digit_def parse_digits_snoc)

lemma parse_nat_str_nat: "parse_nat (str_nat n) = Some n"
proof (induction n rule: str_nat.induct)
  case (1 n)
  show ?case
  proof (cases "n < 10")
    case True
    then show ?thesis
      by (simp add: str_nat.simps parse_nat_def digit_val_digit_char)
  next
    case False
    have d: "digit_val (digit_char (n mod 10)) = Some (n mod 10)"
      by (simp add: digit_val_digit_char)
    have "parse_nat (str_nat (n div 10) @ [digit_char (n mod 10)])
          = map_option (\<lambda>x. x * 10 + n mod 10) (parse_nat (str_nat (n div 10)))"
      by (rule parse_nat_snoc [OF str_nat_nonempty str_nat_digits d])
    also have "\<dots> = Some (n div 10 * 10 + n mod 10)"
      using 1 False by simp
    finally show ?thesis
      using False by (subst str_nat.simps) simp
  qed
qed

lemma is_digit_not_space: "is_digit c \<Longrightarrow> \<not> is_space c"
  by (auto simp: is_digit_cases is_space_def)

lemma is_digit_not_special:
  "is_digit c \<Longrightarrow> c \<noteq> CHR '','' \<and> c \<noteq> CHR ''-'' \<and> c \<noteq> CHR ''+'' \<and> c \<noteq> CHR ''(''
     \<and> c \<noteq> CHR '')'' \<and> c \<noteq> CHR ''='' \<and> c \<noteq> LF \<and> c \<noteq> CR \<and> c \<noteq> CHR ''_''"
  by (auto simp: is_digit_cases LF_def CR_def)

lemma py_str_numchars: "\<forall>x \<in> set (py_str i). is_numchar x"
  using str_nat_digits by (auto simp: py_str_def is_numchar_def)


lemma is_numchar_not_space: "is_numchar c \<Longrightarrow> \<not> is_space c"
  by (auto simp: is_numchar_def is_digit_not_space) (simp add: is_space_def)

lemma is_numchar_not_special:
  "is_numchar c \<Longrightarrow> c \<noteq> CHR '','' \<and> c \<noteq> CHR ''('' \<and> c \<noteq> CHR '')'' \<and> c \<noteq> CHR ''=''
      \<and> c \<noteq> LF \<and> c \<noteq> CR \<and> c \<noteq> CHR '' ''"
  by (auto simp: is_numchar_def is_digit_cases LF_def CR_def)

lemma py_strip_no_space: "\<forall>x \<in> set s. \<not> is_space x \<Longrightarrow> py_strip s = s"
proof -
  assume a: "\<forall>x \<in> set s. \<not> is_space x"
  have d: "dropWhile is_space t = t" if "\<forall>x \<in> set t. \<not> is_space x" for t
    using that by (cases t) auto
  have "dropWhile is_space s = s" using a by (rule d)
  moreover have "dropWhile is_space (rev s) = rev s" by (rule d) (use a in simp)
  ultimately show ?thesis by (simp add: py_strip_def)
qed

lemma py_strip_py_str: "py_strip (py_str i) = py_str i"
  using py_str_numchars is_numchar_not_space by (intro py_strip_no_space) blast

lemma py_int_py_str: "py_int (py_str i) = Some i"
proof (cases "i < 0")
  case True
  then show ?thesis
    by (simp add: py_int_def py_strip_py_str) (simp add: py_str_def parse_nat_str_nat)
next
  case False
  obtain c cs where s: "str_nat (nat i) = c # cs"
    using str_nat_nonempty by (cases "str_nat (nat i)") auto
  have "is_digit c" using str_nat_digits [of "nat i"] s by simp
  then have "c \<noteq> CHR ''-''" "c \<noteq> CHR ''+''" using is_digit_not_special by blast+
  moreover have "parse_nat (c # cs) = Some (nat i)" using parse_nat_str_nat [of "nat i"] s by simp
  ultimately show ?thesis
    using False s py_strip_py_str [of i] by (simp add: py_int_def py_str_def)
qed

lemma py_split_no_sep: "sep \<notin> set s \<Longrightarrow> py_split sep s = [s]"
  by (induction s) auto

lemma py_split_append:
  "sep \<notin> set a \<Longrightarrow> py_split sep (a @ sep # rest) = a # py_split sep rest"
  by (induction a) auto

lemma py_str_no_comma: "CHR '','' \<notin> set (py_str i)"
  using py_str_numchars is_numchar_not_special by blast

lemma py_split_key_of: "py_split (CHR '','') (key_of row col) = [py_str row, py_str col]"
  by (simp add: key_of_def py_split_append py_split_no_sep py_str_no_comma)

lemma parse_key_key_of: "parse_key (key_of row col) = Inr (row, col)"
  by (simp add: parse_key_def py_split_key_of py_int_py_str)

lemma key_of_inject: "key_of r c = key_of r' c' \<longleftrightarrow> r = r' \<and> c = c'"
proof
  assume "key_of r c = key_of r' c'"
  then have "parse_key (key_of r c) = parse_key (key_of r' c')" by simp
  then show "r = r' \<and> c = c'" by (simp add: parse_key_key_of)
qed simp

section \<open>Cells\<close>

lemma valid_key_key_of: "valid_key (key_of row col)"
  by (simp add: valid_key_def parse_key_key_of)

lemma valid_keyE:
  assumes "valid_key key"
  obtains row col where "key = key_of row col" "parse_key key = Inr (row, col)"
  using assms by (auto simp: valid_key_def split: sum.splits)

lemma elements_set_element:
  "elements (set_element m row col val) = AList.update (key_of row col) val (elements m)"
  by (simp add: set_element_def Let_def)

lemma num_rows_set_element:
  "num_rows (set_element m row col val) = (if row \<ge> num_rows m then row + 1 else num_rows m)"
  by (simp add: set_element_def Let_def)

lemma num_cols_set_element:
  "num_cols (set_element m row col val) = (if col \<ge> num_cols m then col + 1 else num_cols m)"
  by (simp add: set_element_def Let_def)

lemma get_set_element:
  "get_element (set_element m row col val) r c =
     (if r = row \<and> c = col then val else get_element m r c)"
  by (simp add: get_element_def elements_set_element update_conv' key_of_inject)

lemma get_element_absent:
  "key_of r c \<notin> fst ` set (elements m) \<Longrightarrow> get_element m r c = 0"
proof -
  assume "key_of r c \<notin> fst ` set (elements m)"
  then have "map_of (elements m) (key_of r c) = None" by (simp add: map_of_eq_None_iff)
  then show ?thesis by (simp add: get_element_def)
qed

lemma get_element_init: "get_element (SparseMatrix_init n_rows n_cols) r c = 0"
  by (simp add: get_element_def SparseMatrix_init_def)



section \<open>Invariant\<close>

lemma well_formed_init: "well_formed (SparseMatrix_init n_rows n_cols)"
  by (simp add: well_formed_def SparseMatrix_init_def)

lemma in_bounds_init: "in_bounds (SparseMatrix_init n_rows n_cols)"
  by (simp add: in_bounds_def SparseMatrix_init_def)

lemma set_update_subset:
  "set (AList.update k v al) \<subseteq> insert (k, v) (set al)"
  by (induction al) auto

lemma well_formed_set_element: "well_formed m \<Longrightarrow> well_formed (set_element m row col val)"
  unfolding well_formed_def elements_set_element list_all_iff
  using set_update_subset [of "key_of row col" val "elements m"]
  by (auto simp: distinct_update valid_key_key_of)

lemma in_bounds_set_element: "in_bounds m \<Longrightarrow> in_bounds (set_element m row col val)"
  unfolding in_bounds_def elements_set_element list_all_iff
  using set_update_subset [of "key_of row col" val "elements m"]
  by (fastforce simp: parse_key_key_of num_rows_set_element num_cols_set_element split: sum.splits)

section \<open>Loops of add and subtract\<close>

lemma add_copy_inv:
  "add_copy items res = Inr res' \<Longrightarrow> well_formed res \<Longrightarrow> well_formed res'"
  by (induction items res rule: add_copy.induct)
     (auto split: sum.splits simp: well_formed_set_element)

lemma add_copy_bounds:
  "add_copy items res = Inr res' \<Longrightarrow> in_bounds res \<Longrightarrow> in_bounds res'"
  by (induction items res rule: add_copy.induct)
     (auto split: sum.splits simp: in_bounds_set_element)

lemma add_other_inv:
  "add_other items res = Inr res' \<Longrightarrow> well_formed res \<Longrightarrow> well_formed res'"
  by (induction items res rule: add_other.induct)
     (auto split: sum.splits simp: well_formed_set_element)

lemma add_other_bounds:
  "add_other items res = Inr res' \<Longrightarrow> in_bounds res \<Longrightarrow> in_bounds res'"
  by (induction items res rule: add_other.induct)
     (auto split: sum.splits simp: in_bounds_set_element)

lemma subtract_loop_inv:
  "subtract_loop self items res = Inr res' \<Longrightarrow> well_formed res \<Longrightarrow> well_formed res'"
  by (induction self items res rule: subtract_loop.induct)
     (auto split: sum.splits simp: well_formed_set_element)

lemma subtract_loop_bounds:
  "subtract_loop self items res = Inr res' \<Longrightarrow> in_bounds res \<Longrightarrow> in_bounds res'"
  by (induction self items res rule: subtract_loop.induct)
     (auto split: sum.splits simp: in_bounds_set_element)

lemma add_copy_total:
  "list_all (\<lambda>(key, val). valid_key key) items \<Longrightarrow> \<exists>res'. add_copy items res = Inr res'"
proof (induction items res rule: add_copy.induct)
  case (1 result)
  then show ?case by simp
next
  case (2 key val items result)
  from 2 have "valid_key key" by simp
  then obtain row col where k: "parse_key key = Inr (row, col)" by (rule valid_keyE)
  with 2 show ?case by simp
qed

lemma add_other_total:
  "list_all (\<lambda>(key, val). valid_key key) items \<Longrightarrow> \<exists>res'. add_other items res = Inr res'"
proof (induction items res rule: add_other.induct)
  case (1 result)
  then show ?case by simp
next
  case (2 key val items result)
  from 2 have "valid_key key" by simp
  then obtain row col where k: "parse_key key = Inr (row, col)" by (rule valid_keyE)
  with 2 show ?case by simp
qed

lemma subtract_loop_total:
  "list_all (\<lambda>(key, val). valid_key key) items \<Longrightarrow> \<exists>res'. subtract_loop self items res = Inr res'"
proof (induction self items res rule: subtract_loop.induct)
  case (1 self result)
  then show ?case by simp
next
  case (2 self key val items result)
  from 2 have "valid_key key" by simp
  then obtain row col where k: "parse_key key = Inr (row, col)" by (rule valid_keyE)
  with 2 show ?case by simp
qed

lemma add_copy_map:
  "add_copy items res = Inr res' \<Longrightarrow> distinct (map fst items) \<Longrightarrow>
   list_all (\<lambda>(key, val). valid_key key) items \<Longrightarrow>
   map_of (elements res') k =
     (case map_of items k of Some v \<Rightarrow> Some v | None \<Rightarrow> map_of (elements res) k)"
proof (induction items res rule: add_copy.induct)
  case (1 result)
  then show ?case by simp
next
  case (2 key val items result)
  from 2 have "valid_key key" by simp
  then obtain row col where k: "key = key_of row col" "parse_key key = Inr (row, col)"
    by (rule valid_keyE)
  from 2 have nk: "map_of items key = None" by (simp add: map_of_eq_None_iff)
  from 2 k have "map_of (elements res') k =
     (case map_of items k of Some v \<Rightarrow> Some v
      | None \<Rightarrow> map_of (elements (set_element result row col val)) k)"
    by simp
  then show ?case using nk k
    by (auto simp: elements_set_element update_conv' split: option.splits)
qed

lemma add_other_map:
  "add_other items res = Inr res' \<Longrightarrow> distinct (map fst items) \<Longrightarrow>
   list_all (\<lambda>(key, val). valid_key key) items \<Longrightarrow>
   map_of (elements res') k =
     (case map_of items k of
        Some v \<Rightarrow> Some ((case map_of (elements res) k of None \<Rightarrow> 0 | Some a \<Rightarrow> a) + v)
      | None \<Rightarrow> map_of (elements res) k)"
proof (induction items res rule: add_other.induct)
  case (1 result)
  then show ?case by simp
next
  case (2 key val items result)
  from 2 have "valid_key key" by simp
  then obtain row col where k: "key = key_of row col" "parse_key key = Inr (row, col)"
    by (rule valid_keyE)
  from 2 have nk: "map_of items key = None" by (simp add: map_of_eq_None_iff)
  let ?r1 = "set_element result row col (get_element result row col + val)"
  from 2 k have "map_of (elements res') k =
     (case map_of items k of
        Some v \<Rightarrow> Some ((case map_of (elements ?r1) k of None \<Rightarrow> 0 | Some a \<Rightarrow> a) + v)
      | None \<Rightarrow> map_of (elements ?r1) k)"
    by simp
  then show ?case using nk k
    by (auto simp: elements_set_element update_conv' get_element_def split: option.splits)
qed

lemma subtract_loop_map:
  "subtract_loop self items res = Inr res' \<Longrightarrow> distinct (map fst items) \<Longrightarrow>
   list_all (\<lambda>(key, val). valid_key key) items \<Longrightarrow>
   map_of (elements res') k =
     (case map_of items k of
        Some v \<Rightarrow> Some ((case map_of (elements self) k of None \<Rightarrow> 0 | Some a \<Rightarrow> a) - v)
      | None \<Rightarrow> map_of (elements res) k)"
proof (induction self items res rule: subtract_loop.induct)
  case (1 self result)
  then show ?case by simp
next
  case (2 self key val items result)
  from 2 have "valid_key key" by simp
  then obtain row col where k: "key = key_of row col" "parse_key key = Inr (row, col)"
    by (rule valid_keyE)
  from 2 have nk: "map_of items key = None" by (simp add: map_of_eq_None_iff)
  let ?r1 = "set_element result row col (get_element self row col - val)"
  from 2 k have "map_of (elements res') k =
     (case map_of items k of
        Some v \<Rightarrow> Some ((case map_of (elements self) k of None \<Rightarrow> 0 | Some a \<Rightarrow> a) - v)
      | None \<Rightarrow> map_of (elements ?r1) k)"
    by simp
  then show ?case using nk k
    by (auto simp: elements_set_element update_conv' get_element_def split: option.splits)
qed

text \<open>The order of the keys.\<close>

lemma update_fresh: "k \<notin> fst ` set al \<Longrightarrow> AList.update k v al = al @ [(k, v)]"
  by (induction al) auto

lemma subtract_loop_keys:
  "subtract_loop self items res = Inr res' \<Longrightarrow> distinct (map fst (elements res) @ map fst items) \<Longrightarrow>
   list_all (\<lambda>(key, val). valid_key key) items \<Longrightarrow>
   map fst (elements res') = map fst (elements res) @ map fst items"
proof (induction items arbitrary: res)
  case Nil
  then show ?case by simp
next
  case (Cons a items)
  obtain key val where a: "a = (key, val)" by (cases a)
  from Cons.prems a have "valid_key key" by simp
  then obtain row col where k: "key = key_of row col" "parse_key key = Inr (row, col)"
    by (rule valid_keyE)
  let ?r1 = "set_element res row col (get_element self row col - val)"
  from Cons.prems a have fresh: "key \<notin> fst ` set (elements res)" by auto
  then have e: "map fst (elements ?r1) = map fst (elements res) @ [key]"
    using k by (simp add: elements_set_element update_fresh)
  have run: "subtract_loop self items ?r1 = Inr res'"
    using Cons.prems(1) a k by simp
  have d: "distinct (map fst (elements ?r1) @ map fst items)"
    using Cons.prems(2) a e by auto
  have v: "list_all (\<lambda>(key, val). valid_key key) items"
    using Cons.prems(3) by simp
  from Cons.IH [OF run d v] e a show ?case by simp
qed

section \<open>Remaining invariants\<close>

lemma multiply_inner_inv:
  "multiply_inner row1 col1 value1 items2 res = Inr res' \<Longrightarrow> well_formed res \<Longrightarrow> well_formed res'"
  by (induction row1 col1 value1 items2 res rule: multiply_inner.induct)
     (auto split: sum.splits if_splits simp: well_formed_set_element)

lemma multiply_inner_bounds:
  "multiply_inner row1 col1 value1 items2 res = Inr res' \<Longrightarrow> in_bounds res \<Longrightarrow> in_bounds res'"
  by (induction row1 col1 value1 items2 res rule: multiply_inner.induct)
     (auto split: sum.splits if_splits simp: in_bounds_set_element)

lemma multiply_outer_inv:
  "multiply_outer items1 items2 res = Inr res' \<Longrightarrow> well_formed res \<Longrightarrow> well_formed res'"
  by (induction items1 arbitrary: res)
     (auto split: sum.splits, blast dest: multiply_inner_inv)

lemma multiply_outer_bounds:
  "multiply_outer items1 items2 res = Inr res' \<Longrightarrow> in_bounds res \<Longrightarrow> in_bounds res'"
  by (induction items1 arbitrary: res)
     (auto split: sum.splits, blast dest: multiply_inner_bounds)

lemma from_file_loop_inv:
  "from_file_loop lines m = Inr m' \<Longrightarrow> well_formed m \<Longrightarrow> well_formed m'"
  by (induction lines m rule: from_file_loop.induct)
     (auto split: sum.splits simp: well_formed_set_element)

lemma from_file_loop_bounds:
  "from_file_loop lines m = Inr m' \<Longrightarrow> in_bounds m \<Longrightarrow> in_bounds m'"
  by (induction lines m rule: from_file_loop.induct)
     (auto split: sum.splits simp: in_bounds_set_element)

lemma from_file_Inr:
  assumes "from_file fs path = Inr m"
  obtains lines n_rows n_cols where
    "parse_matrix_file fs path = Inr lines" "2 \<le> length lines"
    "parse_dimension (lines ! 0) = Some n_rows" "parse_dimension (lines ! 1) = Some n_cols"
    "from_file_loop (drop 2 lines) (SparseMatrix_init n_rows n_cols) = Inr m"
  using assms unfolding from_file_def
  by (auto split: sum.splits if_splits option.splits)

lemma add_Inr:
  assumes "add a b = Inr m"
  obtains res where
    "add_copy (elements a) (SparseMatrix_init (num_rows a) (num_cols a)) = Inr res"
    "add_other (elements b) res = Inr m"
  using assms unfolding add_def by (auto split: sum.splits if_splits)

lemma produced_invariant: "produced m \<Longrightarrow> well_formed m \<and> in_bounds m"
proof (induction rule: produced.induct)
  case (by_init n_rows n_cols)
  show ?case by (simp add: well_formed_init in_bounds_init)
next
  case (by_set_element m row col val)
  then show ?case by (simp add: well_formed_set_element in_bounds_set_element)
next
  case (by_from_file fs path m)
  from by_from_file obtain lines n_rows n_cols where
    "from_file_loop (drop 2 lines) (SparseMatrix_init n_rows n_cols) = Inr m"
    by (rule from_file_Inr)
  then show ?case
    using from_file_loop_inv from_file_loop_bounds well_formed_init in_bounds_init by blast
next
  case (by_add a b m)
  from by_add(3) obtain res where
    r: "add_copy (elements a) (SparseMatrix_init (num_rows a) (num_cols a)) = Inr res"
       "add_other (elements b) res = Inr m"
    by (rule add_Inr)
  from r(1) have "well_formed res \<and> in_bounds res"
    using add_copy_inv add_copy_bounds well_formed_init in_bounds_init by blast
  with r(2) show ?case using add_other_inv add_other_bounds by blast
next
  case (by_subtract a b m)
  from by_subtract(3) have
    "subtract_loop a (elements b) (SparseMatrix_init (num_rows a) (num_cols a)) = Inr m"
    unfolding subtract_def by (simp split: if_splits)
  then show ?case
    using subtract_loop_inv subtract_loop_bounds well_formed_init in_bounds_init by blast
next
  case (by_multiply a b m)
  from by_multiply(3) have
    "multiply_outer (elements a) (elements b) (SparseMatrix_init (num_rows a) (num_cols b)) = Inr m"
    unfolding multiply_def by (simp split: if_splits)
  then show ?case
    using multiply_outer_inv multiply_outer_bounds well_formed_init in_bounds_init by blast
qed

text \<open>Conversely, a well-formed matrix within its bounds is what the constructor and
  a sequence of \<open>set_element\<close> calls build.\<close>

lemma set_elements_snoc:
  "set_elements m (ws @ [(row, col, val)]) = set_element (set_elements m ws) row col val"
  by (induction m ws rule: set_elements.induct) auto

lemma produced_set_elements: "produced m \<Longrightarrow> produced (set_elements m ws)"
  by (induction m ws rule: set_elements.induct) (auto intro: produced.by_set_element)

lemma rebuild:
  "distinct (map fst al) \<Longrightarrow>
   list_all (\<lambda>(key, val). case parse_key key of Inl _ \<Rightarrow> False
       | Inr (row, col) \<Rightarrow> key_of row col = key \<and> row < nr \<and> col < nc) al \<Longrightarrow>
   \<exists>ws. set_elements (SparseMatrix_init nr nc) ws = \<lparr>elements = al, num_rows = nr, num_cols = nc\<rparr>"
proof (induction al rule: rev_induct)
  case Nil
  have "set_elements (SparseMatrix_init nr nc) [] = \<lparr>elements = [], num_rows = nr, num_cols = nc\<rparr>"
    by (simp add: SparseMatrix_init_def)
  then show ?case by blast
next
  case (snoc x al)
  obtain key val where x: "x = (key, val)" by (cases x)
  from snoc.prems x obtain row col where
    k: "parse_key key = Inr (row, col)" "key_of row col = key" "row < nr" "col < nc"
    by (auto split: sum.splits)
  from snoc obtain ws where
    ws: "set_elements (SparseMatrix_init nr nc) ws = \<lparr>elements = al, num_rows = nr, num_cols = nc\<rparr>"
    by auto
  from snoc.prems x have "key \<notin> fst ` set al" by auto
  then have "AList.update key val al = al @ [(key, val)]" by (rule update_fresh)
  then have "set_elements (SparseMatrix_init nr nc) (ws @ [(row, col, val)])
        = \<lparr>elements = al @ [x], num_rows = nr, num_cols = nc\<rparr>"
    using ws k x by (simp add: set_elements_snoc set_element_def)
  then show ?case by blast
qed

lemma invariant_produced:
  assumes "well_formed m" "in_bounds m"
  shows "produced m"
proof -
  have "list_all (\<lambda>(key, val). case parse_key key of Inl _ \<Rightarrow> False
       | Inr (row, col) \<Rightarrow> key_of row col = key \<and> row < num_rows m \<and> col < num_cols m) (elements m)"
    unfolding list_all_iff
  proof
    fix x assume x: "x \<in> set (elements m)"
    obtain key val where kv: "x = (key, val)" by (cases x)
    from assms(1) x kv have "valid_key key"
      unfolding well_formed_def list_all_iff by auto
    then obtain row col where k: "key = key_of row col" "parse_key key = Inr (row, col)"
      by (rule valid_keyE)
    from assms(2) x kv k(2) have "row < num_rows m \<and> col < num_cols m"
      unfolding in_bounds_def list_all_iff by fastforce
    with k kv show "case x of (key, val) \<Rightarrow> case parse_key key of Inl _ \<Rightarrow> False
       | Inr (row, col) \<Rightarrow> key_of row col = key \<and> row < num_rows m \<and> col < num_cols m"
      by simp
  qed
  with assms obtain ws where
    "set_elements (SparseMatrix_init (num_rows m) (num_cols m)) ws
      = \<lparr>elements = elements m, num_rows = num_rows m, num_cols = num_cols m\<rparr>"
    using rebuild [of "elements m" "num_rows m" "num_cols m"] unfolding well_formed_def by blast
  then have "set_elements (SparseMatrix_init (num_rows m) (num_cols m)) ws = m" by simp
  then show ?thesis
    using produced_set_elements [OF produced.by_init, of "num_rows m" "num_cols m" ws] by simp
qed

section \<open>The worked example\<close>

lemma example_A_eq:
  "example_A = \<lparr>elements = [(''0,0'', 1), (''0,1'', 2), (''1,0'', 3), (''1,1'', 4)],
                 num_rows = 2, num_cols = 2\<rparr>"
  by code_simp

lemma example_B_eq:
  "example_B = \<lparr>elements = [(''0,0'', 1), (''1,1'', 1)], num_rows = 2, num_cols = 2\<rparr>"
  by code_simp

lemma well_formed_example_A: "well_formed example_A"
  by code_simp

lemma well_formed_example_B: "well_formed example_B"
  by code_simp

lemma in_bounds_example_A: "in_bounds example_A"
  by code_simp

lemma in_bounds_example_B: "in_bounds example_B"
  by code_simp

section \<open>Addition and subtraction\<close>

lemma add_map:
  assumes "well_formed A" and "well_formed B"
    and "num_rows A = num_rows B" and "num_cols A = num_cols B"
  shows "\<exists>R. add A B = Inr R \<and> well_formed R
     \<and> (\<forall>k. map_of (elements R) k =
          (case map_of (elements A) k of
             None \<Rightarrow> map_of (elements B) k
           | Some a \<Rightarrow> (case map_of (elements B) k of None \<Rightarrow> Some a | Some b \<Rightarrow> Some (a + b))))"
proof -
  let ?init = "SparseMatrix_init (num_rows A) (num_cols A)"
  from assms(1) have dA: "distinct (map fst (elements A))"
    and vA: "list_all (\<lambda>(key, val). valid_key key) (elements A)"
    by (simp_all add: well_formed_def)
  from assms(2) have dB: "distinct (map fst (elements B))"
    and vB: "list_all (\<lambda>(key, val). valid_key key) (elements B)"
    by (simp_all add: well_formed_def)
  from vA obtain R1 where R1: "add_copy (elements A) ?init = Inr R1"
    using add_copy_total by blast
  from vB obtain R where R: "add_other (elements B) R1 = Inr R"
    using add_other_total by blast
  have s: "add A B = Inr R" using assms R1 R by (simp add: add_def)
  have w: "well_formed R"
    using add_other_inv [OF R] add_copy_inv [OF R1] well_formed_init by blast
  have m1: "map_of (elements R1) k = map_of (elements A) k" for k
    using add_copy_map [OF R1 dA vA, of k]
    by (simp add: SparseMatrix_init_def split: option.splits)
  have "map_of (elements R) k =
          (case map_of (elements A) k of
             None \<Rightarrow> map_of (elements B) k
           | Some a \<Rightarrow> (case map_of (elements B) k of None \<Rightarrow> Some a | Some b \<Rightarrow> Some (a + b)))" for k
    using add_other_map [OF R dB vB, of k] m1 [of k]
    by (simp split: option.splits)
  with s w show ?thesis by blast
qed

section \<open>Reading a file\<close>


lemma from_file_loop_error:
  "from_file_loop lines m = Inl e \<Longrightarrow> \<exists>line \<in> set lines. parse_element_line line = Inl e"
  by (induction lines arbitrary: m) (auto split: sum.splits)

lemma from_file_loop_fails:
  "line \<in> set lines \<Longrightarrow> parse_element_line line = Inl e \<Longrightarrow> \<exists>e'. from_file_loop lines m = Inl e'"
proof (induction lines arbitrary: m)
  case Nil
  then show ?case by simp
next
  case (Cons l lines)
  show ?case
  proof (cases "parse_element_line l")
    case (Inl e')
    then show ?thesis by simp
  next
    case (Inr t)
    obtain row col val where t: "t = (row, col, val)" by (cases t)
    from Inr Cons.prems have "line \<in> set lines" by auto
    from Cons.IH [OF this Cons.prems(2)] Inr t show ?thesis by simp
  qed
qed

lemma parse_element_line_error:
  "parse_element_line line = Inl e \<Longrightarrow> e = InvalidElementFormat line \<or> e = InvalidElementEntry line"
  unfolding parse_element_line_def
  by (auto split: if_splits list.splits option.splits)

lemma parse_element_line_bad:
  assumes "\<not> (startswith line (CHR ''('') \<and> endswith line (CHR '')''))
     \<or> length (py_split (CHR '','') (butlast (tl line))) < 3
     \<or> (\<exists>i<3. py_int (py_strip (py_split (CHR '','') (butlast (tl line)) ! i)) = None)"
  shows "\<exists>e. parse_element_line line = Inl e"
proof (cases "startswith line (CHR ''('') \<and> endswith line (CHR '')'')")
  case False
  then show ?thesis by (auto simp: parse_element_line_def)
next
  case True
  show ?thesis
  proof (cases "py_split (CHR '','') (butlast (tl line))")
    case Nil
    with True show ?thesis by (simp add: parse_element_line_def)
  next
    case c1: (Cons e0 r1)
    show ?thesis
    proof (cases r1)
      case Nil
      with True c1 show ?thesis by (simp add: parse_element_line_def)
    next
      case c2: (Cons e1 r2)
      show ?thesis
      proof (cases r2)
        case Nil
        with True c1 c2 show ?thesis by (simp add: parse_element_line_def)
      next
        case c3: (Cons e2 r3)
        from assms True c1 c2 c3 obtain i where
          i: "i < 3" "py_int (py_strip ((e0 # e1 # e2 # r3) ! i)) = None"
          by auto
        then have "i = 0 \<or> i = 1 \<or> i = 2" by auto
        with i have "py_int (py_strip e0) = None \<or> py_int (py_strip e1) = None
            \<or> py_int (py_strip e2) = None"
          by auto
        with True c1 c2 c3 show ?thesis
          by (auto simp: parse_element_line_def split: option.splits)
      qed
    qed
  qed
qed

lemma from_file_error:
  assumes "parse_matrix_file fs path = Inr lines" and "from_file fs path = Inl e"
  shows "e = TooFewLines path \<or> e = InvalidDimensions path
     \<or> (\<exists>l \<in> set (drop 2 lines). e = InvalidElementFormat l \<or> e = InvalidElementEntry l)"
proof -
  from assms have
    "e = TooFewLines path \<or> e = InvalidDimensions path
      \<or> (\<exists>nr nc. from_file_loop (drop 2 lines) (SparseMatrix_init nr nc) = Inl e)"
    unfolding from_file_def by (auto split: if_splits option.splits)
  then show ?thesis
    using from_file_loop_error parse_element_line_error by blast
qed

lemma from_file_fails:
  assumes "parse_matrix_file fs path = Inr lines" and "line \<in> set (drop 2 lines)"
    and "parse_element_line line = Inl e"
  shows "\<exists>e'. from_file fs path = Inl e'"
  using assms from_file_loop_fails [OF assms(2) assms(3)]
  unfolding from_file_def by (auto split: if_splits option.splits)

section \<open>Errors of the operations\<close>

lemma parse_key_error: "parse_key key = Inl e \<Longrightarrow> e = BadKey key"
  unfolding parse_key_def by (auto split: list.splits option.splits)

lemma add_copy_error: "add_copy items res = Inl e \<Longrightarrow> \<exists>key. e = BadKey key"
  by (induction items res rule: add_copy.induct)
     (auto split: sum.splits dest: parse_key_error)

lemma add_other_error: "add_other items res = Inl e \<Longrightarrow> \<exists>key. e = BadKey key"
  by (induction items res rule: add_other.induct)
     (auto split: sum.splits dest: parse_key_error)

lemma subtract_loop_error: "subtract_loop self items res = Inl e \<Longrightarrow> \<exists>key. e = BadKey key"
  by (induction self items res rule: subtract_loop.induct)
     (auto split: sum.splits dest: parse_key_error)

lemma multiply_inner_error:
  "multiply_inner row1 col1 value1 items2 res = Inl e \<Longrightarrow> \<exists>key. e = BadKey key"
  by (induction row1 col1 value1 items2 res rule: multiply_inner.induct)
     (auto split: sum.splits dest: parse_key_error)

lemma multiply_outer_error:
  "multiply_outer items1 items2 res = Inl e \<Longrightarrow> \<exists>key. e = BadKey key"
proof (induction items1 arbitrary: res)
  case Nil
  then show ?case by simp
next
  case (Cons a items1)
  obtain key1 value1 where a: "a = (key1, value1)" by (cases a)
  show ?case
  proof (cases "parse_key key1")
    case (Inl e')
    with Cons.prems a show ?thesis by (auto dest: parse_key_error)
  next
    case (Inr rc)
    obtain row1 col1 where rc: "rc = (row1, col1)" by (cases rc)
    show ?thesis
    proof (cases "multiply_inner row1 col1 value1 items2 res")
      case (Inl e')
      with Cons.prems a Inr rc show ?thesis by (auto dest: multiply_inner_error)
    next
      case r: (Inr res1)
      with Cons.prems a Inr rc have "multiply_outer items1 items2 res1 = Inl e" by simp
      then show ?thesis by (rule Cons.IH)
    qed
  qed
qed

lemma multiply_inner_total:
  "list_all (\<lambda>(key, val). valid_key key) items2 \<Longrightarrow>
   \<exists>res'. multiply_inner row1 col1 value1 items2 res = Inr res'"
proof (induction items2 arbitrary: res)
  case Nil
  then show ?case by simp
next
  case (Cons a items2)
  obtain key val where a: "a = (key, val)" by (cases a)
  from Cons.prems a have "valid_key key" by simp
  then obtain row col where k: "parse_key key = Inr (row, col)" by (rule valid_keyE)
  from Cons a k show ?case by simp
qed

lemma multiply_outer_total:
  "list_all (\<lambda>(key, val). valid_key key) items1 \<Longrightarrow>
   list_all (\<lambda>(key, val). valid_key key) items2 \<Longrightarrow>
   \<exists>res'. multiply_outer items1 items2 res = Inr res'"
proof (induction items1 arbitrary: res)
  case Nil
  then show ?case by simp
next
  case (Cons a items1)
  obtain key val where a: "a = (key, val)" by (cases a)
  from Cons.prems a have "valid_key key" by simp
  then obtain row col where k: "parse_key key = Inr (row, col)" by (rule valid_keyE)
  obtain r1 where r1: "multiply_inner row col val items2 res = Inr r1"
    using multiply_inner_total [OF Cons.prems(2)] by blast
  from Cons.IH [of r1] Cons.prems a k r1 show ?case by simp
qed


lemma well_formed_example_C: "well_formed example_C"
  by code_simp


lemma example_fs_short:
  "parse_matrix_file example_fs ''short.txt'' = Inr [''rows=2'', ''cols=2'', ''(1,2)'']"
  by code_simp

section \<open>Multiplication\<close>

lemma multiply_inner_get:
  "multiply_inner row1 col1 value1 items2 res = Inr res' \<Longrightarrow> distinct (map fst items2) \<Longrightarrow>
   list_all (\<lambda>(key, val). valid_key key) items2 \<Longrightarrow>
   get_element res' i j = get_element res i j +
     (if i = row1
      then value1 * (case map_of items2 (key_of col1 j) of None \<Rightarrow> 0 | Some b \<Rightarrow> b) else 0)"
proof (induction items2 arbitrary: res)
  case Nil
  then show ?case by simp
next
  case (Cons a items2)
  obtain key2 value2 where a: "a = (key2, value2)" by (cases a)
  from Cons.prems a have "valid_key key2" by simp
  then obtain row2 col2 where k: "key2 = key_of row2 col2" "parse_key key2 = Inr (row2, col2)"
    by (rule valid_keyE)
  from Cons.prems a have nk: "map_of items2 key2 = None" by (simp add: map_of_eq_None_iff)
  let ?res1 = "if col1 = row2
     then set_element res row1 col2 (get_element res row1 col2 + value1 * value2) else res"
  have run: "multiply_inner row1 col1 value1 items2 ?res1 = Inr res'"
    using Cons.prems(1) a k by simp
  have d: "distinct (map fst items2)" using Cons.prems(2) by simp
  have v: "list_all (\<lambda>(key, val). valid_key key) items2" using Cons.prems(3) by simp
  note ih = Cons.IH [OF run d v]
  show ?case
  proof (cases "col1 = row2 \<and> j = col2")
    case True
    with nk k have z: "map_of items2 (key_of col1 j) = None" by simp
    from True ih z a k show ?thesis
      by (simp add: get_set_element algebra_simps)
  next
    case False
    then have ne: "key_of col1 j \<noteq> key2" using k by (simp add: key_of_inject)
    from False ih ne a show ?thesis
      by (auto simp: get_set_element)
  qed
qed

lemma multiply_outer_get:
  "multiply_outer items1 items2 res = Inr res' \<Longrightarrow> distinct (map fst items2) \<Longrightarrow>
   list_all (\<lambda>(key, val). valid_key key) items2 \<Longrightarrow>
   get_element res' i j = get_element res i j + sum_list (map (contribution items2 i j) items1)"
proof (induction items1 arbitrary: res)
  case Nil
  then show ?case by simp
next
  case (Cons a items1)
  obtain key1 value1 where a: "a = (key1, value1)" by (cases a)
  from Cons.prems(1) a obtain row1 col1 res1 where
    k: "parse_key key1 = Inr (row1, col1)"
    and r1: "multiply_inner row1 col1 value1 items2 res = Inr res1"
    and run: "multiply_outer items1 items2 res1 = Inr res'"
    by (auto split: sum.splits)
  from multiply_inner_get [OF r1 Cons.prems(2) Cons.prems(3), of i j]
  have "get_element res1 i j = get_element res i j + contribution items2 i j a"
    using a k by (simp add: contribution_def)
  with Cons.IH [OF run Cons.prems(2) Cons.prems(3)] show ?case by simp
qed

lemma contribution_sum:
  fixes g :: "int \<Rightarrow> int"
  assumes "finite K"
  shows "distinct (map fst items1) \<Longrightarrow> list_all (\<lambda>(key, val). valid_key key) items1 \<Longrightarrow>
   (\<forall>k. (case map_of items1 (key_of i k) of None \<Rightarrow> 0 | Some a \<Rightarrow> a) * g k \<noteq> 0 \<longrightarrow> k \<in> K) \<Longrightarrow>
   sum_list (map (\<lambda>(key1, value1). case parse_key key1 of Inl _ \<Rightarrow> 0
        | Inr (row1, col1) \<Rightarrow> if row1 = i then value1 * g col1 else 0) items1)
   = (\<Sum>k\<in>K. (case map_of items1 (key_of i k) of None \<Rightarrow> 0 | Some a \<Rightarrow> a) * g k)"
proof (induction items1)
  case Nil
  then show ?case by simp
next
  case (Cons a items1)
  obtain key1 value1 where a: "a = (key1, value1)" by (cases a)
  from Cons.prems a have "valid_key key1" by simp
  then obtain row1 col1 where k: "key1 = key_of row1 col1" "parse_key key1 = Inr (row1, col1)"
    by (rule valid_keyE)
  from Cons.prems a have nk: "map_of items1 key1 = None" by (simp add: map_of_eq_None_iff)
  let ?L = "\<lambda>k. (case map_of items1 (key_of i k) of None \<Rightarrow> 0 | Some a \<Rightarrow> a)"
  let ?L' = "\<lambda>k. (case map_of (a # items1) (key_of i k) of None \<Rightarrow> 0 | Some a \<Rightarrow> a)"
  have L1: "?L' col1 = value1" if "row1 = i"
    using that a k by simp
  have L2: "?L' k = ?L k" if "\<not> (row1 = i \<and> k = col1)" for k
    using that a k by (auto simp: key_of_inject)
  have inherit: "\<forall>k. ?L k * g k \<noteq> 0 \<longrightarrow> k \<in> K"
  proof (intro allI impI)
    fix k assume nz: "?L k * g k \<noteq> 0"
    have "\<not> (row1 = i \<and> k = col1)"
    proof
      assume "row1 = i \<and> k = col1"
      then have "map_of items1 (key_of i k) = None" using nk k by simp
      with nz show False by simp
    qed
    then have "?L' k = ?L k" by (rule L2)
    with nz Cons.prems(3) show "k \<in> K" by metis
  qed
  have d: "distinct (map fst items1)" using Cons.prems(1) by simp
  have v: "list_all (\<lambda>(key, val). valid_key key) items1" using Cons.prems(2) by simp
  note ih = Cons.IH [OF d v inherit]
  show ?case
  proof (cases "row1 = i")
    case False
    then have "?L' k = ?L k" for k by (intro L2) simp
    then have "(\<Sum>k\<in>K. ?L' k * g k) = (\<Sum>k\<in>K. ?L k * g k)" by (simp only:)
    with False ih a k show ?thesis by simp
  next
    case True
    have z: "?L col1 = 0" using nk k True by simp
    have "?L' k * g k = (if k = col1 then value1 * g k else ?L k * g k)" for k
    proof (cases "k = col1")
      case True
      with L1 [OF \<open>row1 = i\<close>] show ?thesis by (simp only: simp_thms if_True)
    next
      case False
      then have "?L' k = ?L k" by (intro L2) simp
      with False show ?thesis by (simp only: if_False)
    qed
    then have "(\<Sum>k\<in>K. ?L' k * g k) = (\<Sum>k\<in>K. if k = col1 then value1 * g k else ?L k * g k)"
      by (simp only:)
    also have "\<dots> = (if col1 \<in> K then value1 * g col1 + (\<Sum>k\<in>K - {col1}. ?L k * g k)
                      else (\<Sum>k\<in>K - {col1}. ?L k * g k))"
      by (rule sum.delta_remove [OF assms])
    also have "(\<Sum>k\<in>K - {col1}. ?L k * g k) = (\<Sum>k\<in>K. ?L k * g k)"
      by (rule sum.mono_neutral_left) (use assms z in auto)
    finally have s: "(\<Sum>k\<in>K. ?L' k * g k)
        = (if col1 \<in> K then value1 * g col1 else 0) + (\<Sum>k\<in>K. ?L k * g k)"
      by simp
    have "value1 * g col1 = 0" if "col1 \<notin> K"
    proof (rule ccontr)
      assume "value1 * g col1 \<noteq> 0"
      then have "?L' col1 * g col1 \<noteq> 0" unfolding L1 [OF True] .
      with Cons.prems(3) have "col1 \<in> K" by metis
      with that show False by simp
    qed
    then have "(if col1 \<in> K then value1 * g col1 else 0) = value1 * g col1" by simp
    with s ih a k True show ?thesis by simp
  qed
qed

lemma support_finite:
  fixes items :: "(string \<times> int) list"
  shows "finite {k. map_of items (key_of i k) \<noteq> None}"
proof -
  let ?col = "\<lambda>(key, val :: int). case parse_key key of Inl _ \<Rightarrow> (0 :: int) | Inr (row, col) \<Rightarrow> col"
  have "{k. map_of items (key_of i k) \<noteq> None} \<subseteq> ?col ` set items"
  proof
    fix k assume "k \<in> {k. map_of items (key_of i k) \<noteq> None}"
    then obtain v where "map_of items (key_of i k) = Some v" by auto
    then have "(key_of i k, v) \<in> set items" by (rule map_of_SomeD)
    then have "?col (key_of i k, v) \<in> ?col ` set items" by (rule imageI)
    then show "k \<in> ?col ` set items" by (simp add: parse_key_key_of)
  qed
  then show ?thesis by (rule finite_subset) simp
qed

lemma multiply_inner_shape:
  "multiply_inner row1 col1 value1 items2 res = Inr res' \<Longrightarrow> row1 < num_rows res \<Longrightarrow>
   list_all (\<lambda>(key, val). case parse_key key of Inl _ \<Rightarrow> False
                | Inr (row, col) \<Rightarrow> col < num_cols res) items2 \<Longrightarrow>
   num_rows res' = num_rows res \<and> num_cols res' = num_cols res"
proof (induction items2 arbitrary: res)
  case Nil
  then show ?case by simp
next
  case (Cons a items2)
  obtain key2 value2 where a: "a = (key2, value2)" by (cases a)
  from Cons.prems(3) a obtain row2 col2 where
    k: "parse_key key2 = Inr (row2, col2)" "col2 < num_cols res"
    by (auto split: sum.splits)
  let ?res1 = "if col1 = row2
     then set_element res row1 col2 (get_element res row1 col2 + value1 * value2) else res"
  have run: "multiply_inner row1 col1 value1 items2 ?res1 = Inr res'"
    using Cons.prems(1) a k by simp
  have s: "num_rows ?res1 = num_rows res" "num_cols ?res1 = num_cols res"
    using k Cons.prems(2) by (simp_all add: num_rows_set_element num_cols_set_element)
  have p2: "row1 < num_rows ?res1" using Cons.prems(2) unfolding s .
  have p3: "list_all (\<lambda>(key, val). case parse_key key of Inl _ \<Rightarrow> False
                | Inr (row, col) \<Rightarrow> col < num_cols ?res1) items2"
    unfolding s using Cons.prems(3) by simp
  have "num_rows res' = num_rows ?res1 \<and> num_cols res' = num_cols ?res1"
    by (rule Cons.IH [OF run p2 p3])
  with s show ?case by simp
qed

lemma multiply_outer_shape:
  "multiply_outer items1 items2 res = Inr res' \<Longrightarrow>
   list_all (\<lambda>(key, val). case parse_key key of Inl _ \<Rightarrow> False
                | Inr (row, col) \<Rightarrow> row < num_rows res) items1 \<Longrightarrow>
   list_all (\<lambda>(key, val). case parse_key key of Inl _ \<Rightarrow> False
                | Inr (row, col) \<Rightarrow> col < num_cols res) items2 \<Longrightarrow>
   num_rows res' = num_rows res \<and> num_cols res' = num_cols res"
proof (induction items1 arbitrary: res)
  case Nil
  then show ?case by simp
next
  case (Cons a items1)
  obtain key1 value1 where a: "a = (key1, value1)" by (cases a)
  from Cons.prems(1) a obtain row1 col1 res1 where
    k: "parse_key key1 = Inr (row1, col1)"
    and r1: "multiply_inner row1 col1 value1 items2 res = Inr res1"
    and run: "multiply_outer items1 items2 res1 = Inr res'"
    by (auto split: sum.splits)
  from Cons.prems(2) a k have b: "row1 < num_rows res" by simp
  from multiply_inner_shape [OF r1 b Cons.prems(3)]
  have s: "num_rows res1 = num_rows res" "num_cols res1 = num_cols res" by simp_all
  have p2: "list_all (\<lambda>(key, val). case parse_key key of Inl _ \<Rightarrow> False
                | Inr (row, col) \<Rightarrow> row < num_rows res1) items1"
    unfolding s using Cons.prems(2) by simp
  have p3: "list_all (\<lambda>(key, val). case parse_key key of Inl _ \<Rightarrow> False
                | Inr (row, col) \<Rightarrow> col < num_cols res1) items2"
    unfolding s using Cons.prems(3) .
  have "num_rows res' = num_rows res1 \<and> num_cols res' = num_cols res1"
    by (rule Cons.IH [OF run p2 p3])
  with s show ?case by simp
qed


lemma product_support_finite:
  "finite {k. get_element A i k * get_element B k j \<noteq> 0}"
proof -
  have "{k. get_element A i k * get_element B k j \<noteq> 0}
        \<subseteq> {k. map_of (elements A) (key_of i k) \<noteq> None}"
    by (auto simp: get_element_def split: option.splits)
  then show ?thesis using support_finite by (rule finite_subset)
qed

lemma in_bounds_rows:
  "in_bounds m \<Longrightarrow> num_rows res = num_rows m \<Longrightarrow>
   list_all (\<lambda>(key, val). case parse_key key of Inl _ \<Rightarrow> False
                | Inr (row, col) \<Rightarrow> row < num_rows res) (elements m)"
  unfolding in_bounds_def list_all_iff by (auto split: sum.splits)

lemma in_bounds_cols:
  "in_bounds m \<Longrightarrow> num_cols res = num_cols m \<Longrightarrow>
   list_all (\<lambda>(key, val). case parse_key key of Inl _ \<Rightarrow> False
                | Inr (row, col) \<Rightarrow> col < num_cols res) (elements m)"
  unfolding in_bounds_def list_all_iff by (auto split: sum.splits)

lemma multiply_get:
  assumes "well_formed A" and "well_formed B"
    and "multiply A B = Inr R"
    and "finite K" and "{k. get_element A i k * get_element B k j \<noteq> 0} \<subseteq> K"
  shows "get_element R i j = (\<Sum>k\<in>K. get_element A i k * get_element B k j)"
proof -
  let ?init = "SparseMatrix_init (num_rows A) (num_cols B)"
  from assms(1) have dA: "distinct (map fst (elements A))"
    and vA: "list_all (\<lambda>(key, val). valid_key key) (elements A)"
    by (simp_all add: well_formed_def)
  from assms(2) have dB: "distinct (map fst (elements B))"
    and vB: "list_all (\<lambda>(key, val). valid_key key) (elements B)"
    by (simp_all add: well_formed_def)
  from assms(3) have run: "multiply_outer (elements A) (elements B) ?init = Inr R"
    unfolding multiply_def by (simp split: if_splits)
  let ?g = "\<lambda>k. get_element B k j"
  have c: "contribution (elements B) i j =
      (\<lambda>(key1, value1). case parse_key key1 of Inl _ \<Rightarrow> 0
        | Inr (row1, col1) \<Rightarrow> if row1 = i then value1 * ?g col1 else 0)"
    unfolding contribution_def get_element_def ..
  have sup: "\<forall>k. (case map_of (elements A) (key_of i k) of None \<Rightarrow> 0 | Some a \<Rightarrow> a) * ?g k \<noteq> 0
        \<longrightarrow> k \<in> K"
    using assms(5) unfolding get_element_def by blast
  have "get_element R i j = get_element ?init i j
      + sum_list (map (contribution (elements B) i j) (elements A))"
    by (rule multiply_outer_get [OF run dB vB])
  also have "get_element ?init i j = 0" by (rule get_element_init)
  also have "sum_list (map (contribution (elements B) i j) (elements A))
      = (\<Sum>k\<in>K. (case map_of (elements A) (key_of i k) of None \<Rightarrow> 0 | Some a \<Rightarrow> a) * ?g k)"
    unfolding c by (rule contribution_sum [OF assms(4) dA vA sup])
  finally show ?thesis by (simp add: get_element_def)
qed

section \<open>Lines of a text\<close>












section \<open>The lines that \<open>__str__\<close> writes\<close>

















section \<open>The claims\<close>

text \<open>
  The statements about arbitrary matrices assume \<^const>\<open>well_formed\<close>, and where the shape
  matters \<^const>\<open>in_bounds\<close>.  Both hold of every matrix the program builds
  (\<open>produced_invariant\<close>), and a matrix for which both hold is built by the constructor
  and calls of \<open>set_element\<close> (\<open>invariant_produced\<close>).
\<close>



text \<open>
  Claim C10.  In every matrix made by the constructor, \<open>set_element\<close>, \<open>from_file\<close>,
  \<open>add\<close>, \<open>subtract\<close> or \<open>multiply\<close>, every stored coordinate \<open>(r, c)\<close> has
  \<open>r < num_rows\<close> and \<open>c < num_cols\<close>; the coordinates and the shape may be negative.
\<close>

theorem produced_in_bounds:
  "produced m \<Longrightarrow>
   in_bounds m \<and> (\<forall>r c. key_of r c \<in> fst ` set (elements m) \<longrightarrow> r < num_rows m \<and> c < num_cols m)"
proof -
  assume "produced m"
  then have b: "in_bounds m" using produced_invariant by blast
  have "r < num_rows m \<and> c < num_cols m" if "key_of r c \<in> fst ` set (elements m)" for r c
    using that b unfolding in_bounds_def list_all_iff
    by (fastforce simp: parse_key_key_of)
  with b show ?thesis by blast
qed

theorem produced_in_bounds_witness:
  "produced (set_element (SparseMatrix_init (- 5) (- 5)) (- 3) (- 3) 1)
   \<and> in_bounds (set_element (SparseMatrix_init (- 5) (- 5)) (- 3) (- 3) 1)
   \<and> num_rows (set_element (SparseMatrix_init (- 5) (- 5)) (- 3) (- 3) 1) = - 2"
proof -
  have p: "produced (set_element (SparseMatrix_init (- 5) (- 5)) (- 3) (- 3) 1)"
    by (intro produced.by_set_element produced.by_init)
  show ?thesis
    using p produced_in_bounds [OF p] by (simp add: num_rows_set_element SparseMatrix_init_def)
qed

text \<open>
  Claim C1.  For \<open>A\<close> and \<open>B\<close> of equal declared shape, \<open>subtract(A, B)\<close> returns a
  matrix whose keys are exactly the keys of \<open>B\<close> (in the same order), with the value
  \<open>A.get_element(r, c)\<close> minus the value of \<open>B\<close> at each such \<open>(r, c)\<close>; an entry of
  \<open>A\<close> whose key is not in \<open>B\<close> is not in the result.
\<close>

theorem subtract_keeps_only_keys_of_other:
  assumes "well_formed B" and "num_rows A = num_rows B" and "num_cols A = num_cols B"
  shows "\<exists>R. subtract A B = Inr R
     \<and> map fst (elements R) = map fst (elements B)
     \<and> (\<forall>r c. key_of r c \<in> fst ` set (elements B) \<longrightarrow>
           map_of (elements R) (key_of r c) = Some (get_element A r c - get_element B r c))
     \<and> (\<forall>key. key \<in> fst ` set (elements A) \<longrightarrow> key \<notin> fst ` set (elements B) \<longrightarrow>
           key \<notin> fst ` set (elements R))"
proof -
  let ?init = "SparseMatrix_init (num_rows A) (num_cols A)"
  from assms(1) have d: "distinct (map fst (elements B))"
    and v: "list_all (\<lambda>(key, val). valid_key key) (elements B)"
    by (simp_all add: well_formed_def)
  from v obtain R where R: "subtract_loop A (elements B) ?init = Inr R"
    using subtract_loop_total by blast
  then have s: "subtract A B = Inr R" using assms by (simp add: subtract_def)
  have "distinct (map fst (elements ?init) @ map fst (elements B))"
    using d by (simp add: SparseMatrix_init_def)
  from subtract_loop_keys [OF R this v]
  have keys: "map fst (elements R) = map fst (elements B)"
    by (simp add: SparseMatrix_init_def)
  have vals: "map_of (elements R) (key_of r c) = Some (get_element A r c - get_element B r c)"
    if "key_of r c \<in> fst ` set (elements B)" for r c
  proof -
    from that obtain b where b: "map_of (elements B) (key_of r c) = Some b"
      by (metis domD dom_map_of_conv_image_fst)
    show ?thesis
      using subtract_loop_map [OF R d v, of "key_of r c"] b
      by (simp add: get_element_def)
  qed
  have "fst ` set (elements R) = fst ` set (elements B)"
    using keys by (metis set_map)
  with s keys vals show ?thesis by blast
qed

theorem subtract_keeps_only_keys_of_other_witness:
  "well_formed example_B \<and> num_rows example_A = num_rows example_B
   \<and> num_cols example_A = num_cols example_B
   \<and> (\<exists>R. subtract example_A example_B = Inr R
        \<and> map fst (elements R) = [''0,0'', ''1,1'']
        \<and> ''0,1'' \<notin> fst ` set (elements R))"
proof -
  have h: "well_formed example_B" "num_rows example_A = num_rows example_B"
    "num_cols example_A = num_cols example_B"
    by (rule well_formed_example_B) (simp_all add: example_A_eq example_B_eq)
  from subtract_keeps_only_keys_of_other [OF h]
  obtain R where "subtract example_A example_B = Inr R"
    "map fst (elements R) = map fst (elements example_B)" by blast
  then have "subtract example_A example_B = Inr R \<and> map fst (elements R) = [''0,0'', ''1,1'']
    \<and> ''0,1'' \<notin> fst ` set (elements R)"
    by (simp add: example_B_eq flip: set_map)
  then have e: "\<exists>R. subtract example_A example_B = Inr R
        \<and> map fst (elements R) = [''0,0'', ''1,1'']
        \<and> ''0,1'' \<notin> fst ` set (elements R)"
    by (rule exI)
  show ?thesis by (intro conjI h e)
qed

text \<open>
  Claim C3.  For \<open>A\<close> and \<open>B\<close> of equal declared shape, \<open>add(A, B)\<close> and \<open>add(B, A)\<close>
  hold the same mapping from keys to values: the keys are those of \<open>A\<close> together with
  those of \<open>B\<close>, a key of both has the sum of the two values, a key of one only keeps
  its value.
\<close>

theorem add_commutes:
  assumes "well_formed A" and "well_formed B"
    and "num_rows A = num_rows B" and "num_cols A = num_cols B"
  shows "\<exists>R S. add A B = Inr R \<and> add B A = Inr S
     \<and> map_of (elements R) = map_of (elements S)
     \<and> fst ` set (elements R) = fst ` set (elements A) \<union> fst ` set (elements B)
     \<and> fst ` set (elements S) = fst ` set (elements A) \<union> fst ` set (elements B)
     \<and> distinct (map fst (elements R)) \<and> distinct (map fst (elements S))
     \<and> (\<forall>k. map_of (elements R) k =
          (case map_of (elements A) k of
             None \<Rightarrow> map_of (elements B) k
           | Some a \<Rightarrow> (case map_of (elements B) k of None \<Rightarrow> Some a | Some b \<Rightarrow> Some (a + b))))"
proof -
  from add_map [OF assms] obtain R where R: "add A B = Inr R" "well_formed R"
    "\<And>k. map_of (elements R) k =
          (case map_of (elements A) k of
             None \<Rightarrow> map_of (elements B) k
           | Some a \<Rightarrow> (case map_of (elements B) k of None \<Rightarrow> Some a | Some b \<Rightarrow> Some (a + b)))"
    by blast
  from add_map [OF assms(2) assms(1) assms(3) [symmetric] assms(4) [symmetric]]
  obtain S where S: "add B A = Inr S" "well_formed S"
    "\<And>k. map_of (elements S) k =
          (case map_of (elements B) k of
             None \<Rightarrow> map_of (elements A) k
           | Some b \<Rightarrow> (case map_of (elements A) k of None \<Rightarrow> Some b | Some a \<Rightarrow> Some (b + a)))"
    by blast
  have eq: "map_of (elements R) = map_of (elements S)"
  proof
    fix k show "map_of (elements R) k = map_of (elements S) k"
      by (simp add: R(3) S(3) split: option.splits)
  qed
  have "dom (map_of (elements R)) = dom (map_of (elements A)) \<union> dom (map_of (elements B))"
    by (auto simp: R(3) dom_def split: option.splits)
  then have kR: "fst ` set (elements R) = fst ` set (elements A) \<union> fst ` set (elements B)"
    by (simp add: dom_map_of_conv_image_fst)
  have "dom (map_of (elements S)) = dom (map_of (elements R))" using eq by simp
  then have kS: "fst ` set (elements S) = fst ` set (elements A) \<union> fst ` set (elements B)"
    using kR by (simp add: dom_map_of_conv_image_fst)
  from R(2) S(2) have "distinct (map fst (elements R))" "distinct (map fst (elements S))"
    by (simp_all add: well_formed_def)
  with R(1) S(1) eq kR kS R(3) show ?thesis by blast
qed

theorem add_commutes_witness:
  "well_formed example_A \<and> well_formed example_B
   \<and> num_rows example_A = num_rows example_B \<and> num_cols example_A = num_cols example_B
   \<and> (\<exists>R S. add example_A example_B = Inr R \<and> add example_B example_A = Inr S
        \<and> map_of (elements R) = map_of (elements S))"
proof -
  have h: "well_formed example_A" "well_formed example_B"
    "num_rows example_A = num_rows example_B" "num_cols example_A = num_cols example_B"
    by (rule well_formed_example_A, rule well_formed_example_B)
       (simp_all add: example_A_eq example_B_eq)
  from add_commutes [OF h] obtain R S where
    "add example_A example_B = Inr R \<and> add example_B example_A = Inr S
        \<and> map_of (elements R) = map_of (elements S)"
    by fast
  then have e: "\<exists>R S. add example_A example_B = Inr R \<and> add example_B example_A = Inr S
        \<and> map_of (elements R) = map_of (elements S)"
    by (intro exI)
  show ?thesis by (intro conjI h e)
qed

text \<open>
  Claim C4.  For the 2 by 2 matrix \<open>A\<close> with the entries \<open>(0,0,1), (0,1,2), (1,0,3),
  (1,1,4)\<close> and the identity \<open>B\<close> with \<open>(0,0,1), (1,1,1)\<close>: \<open>add(A, B)\<close> has exactly
  the entries \<open>(0,0,2), (0,1,2), (1,0,3), (1,1,5)\<close>, \<open>multiply(A, B)\<close> has exactly the
  entries of \<open>A\<close>, and \<open>subtract(A, B)\<close> has exactly \<open>(0,0,0), (1,1,3)\<close>, the entries
  of \<open>A\<close> at \<open>(0,1)\<close> and \<open>(1,0)\<close> being dropped.
\<close>

theorem worked_example:
  "elements example_A = [(key_of 0 0, 1), (key_of 0 1, 2), (key_of 1 0, 3), (key_of 1 1, 4)]
   \<and> elements example_B = [(key_of 0 0, 1), (key_of 1 1, 1)]
   \<and> add example_A example_B =
        Inr \<lparr>elements = [(key_of 0 0, 2), (key_of 0 1, 2), (key_of 1 0, 3), (key_of 1 1, 5)],
             num_rows = 2, num_cols = 2\<rparr>
   \<and> multiply example_A example_B = Inr example_A
   \<and> subtract example_A example_B =
        Inr \<lparr>elements = [(key_of 0 0, 0), (key_of 1 1, 3)], num_rows = 2, num_cols = 2\<rparr>"
  by code_simp

theorem worked_example_witness:
  "num_rows example_A = num_rows example_B \<and> num_cols example_A = num_cols example_B
   \<and> num_cols example_A = num_rows example_B
   \<and> (\<exists>R. add example_A example_B = Inr R \<and> map_of (elements R) (key_of 1 1) = Some 5)
   \<and> (\<exists>R. multiply example_A example_B = Inr R \<and> elements R = elements example_A)
   \<and> (\<exists>R. subtract example_A example_B = Inr R \<and> map fst (elements R) = [key_of 0 0, key_of 1 1])"
proof -
  have d: "num_rows example_A = num_rows example_B" "num_cols example_A = num_cols example_B"
    "num_cols example_A = num_rows example_B"
    by (simp_all add: example_A_eq example_B_eq)
  have k: "key_of 1 0 \<noteq> key_of 1 1" "key_of 0 1 \<noteq> key_of 1 1" "key_of 0 0 \<noteq> key_of 1 1"
    by (simp_all add: key_of_inject)
  from worked_example k d show ?thesis by simp
qed



text \<open>
  Claim C7.  \<open>add\<close> and \<open>subtract\<close> raise their dimension error exactly when the
  declared shapes of the operands differ, and \<open>multiply\<close> raises its dimension error
  exactly when \<open>self.num_cols != other.num_rows\<close>; no matrix is returned then.  On
  well-formed operands these are the only failures.  The check is the first statement
  of each operation and the operations assign to the new matrix \<open>result\<close> only, so the
  operands, which are values here, are what they were.
\<close>

theorem dimension_mismatch:
  "(add A B = Inl CannotAdd \<longleftrightarrow> num_rows A \<noteq> num_rows B \<or> num_cols A \<noteq> num_cols B)
   \<and> (subtract A B = Inl CannotSubtract \<longleftrightarrow> num_rows A \<noteq> num_rows B \<or> num_cols A \<noteq> num_cols B)
   \<and> (multiply A B = Inl CannotMultiply \<longleftrightarrow> num_cols A \<noteq> num_rows B)
   \<and> (well_formed A \<and> well_formed B \<longrightarrow>
        ((\<exists>e. add A B = Inl e) \<longleftrightarrow> num_rows A \<noteq> num_rows B \<or> num_cols A \<noteq> num_cols B)
      \<and> ((\<exists>e. subtract A B = Inl e) \<longleftrightarrow> num_rows A \<noteq> num_rows B \<or> num_cols A \<noteq> num_cols B)
      \<and> ((\<exists>e. multiply A B = Inl e) \<longleftrightarrow> num_cols A \<noteq> num_rows B))"
proof -
  let ?differ = "num_rows A \<noteq> num_rows B \<or> num_cols A \<noteq> num_cols B"
  have a1: "add A B = Inl CannotAdd \<longleftrightarrow> ?differ"
  proof
    assume "add A B = Inl CannotAdd"
    then show ?differ
      unfolding add_def
      by (auto split: if_splits sum.splits dest: add_copy_error add_other_error)
  qed (simp add: add_def)
  have s1: "subtract A B = Inl CannotSubtract \<longleftrightarrow> ?differ"
  proof
    assume "subtract A B = Inl CannotSubtract"
    then show ?differ
      unfolding subtract_def by (auto split: if_splits dest: subtract_loop_error)
  qed (simp add: subtract_def)
  have m1: "multiply A B = Inl CannotMultiply \<longleftrightarrow> num_cols A \<noteq> num_rows B"
  proof
    assume "multiply A B = Inl CannotMultiply"
    then show "num_cols A \<noteq> num_rows B"
      unfolding multiply_def by (auto split: if_splits dest: multiply_outer_error)
  qed (simp add: multiply_def)
  have total: "((\<exists>e. add A B = Inl e) \<longleftrightarrow> ?differ)
      \<and> ((\<exists>e. subtract A B = Inl e) \<longleftrightarrow> ?differ)
      \<and> ((\<exists>e. multiply A B = Inl e) \<longleftrightarrow> num_cols A \<noteq> num_rows B)"
    if w: "well_formed A" "well_formed B"
  proof -
    from w have vA: "list_all (\<lambda>(key, val). valid_key key) (elements A)"
      and vB: "list_all (\<lambda>(key, val). valid_key key) (elements B)"
      by (simp_all add: well_formed_def)
    have "\<exists>R. add A B = Inr R" if "\<not> ?differ"
    proof -
      obtain R1 where "add_copy (elements A) (SparseMatrix_init (num_rows A) (num_cols A)) = Inr R1"
        using add_copy_total [OF vA] by blast
      moreover obtain R where "add_other (elements B) R1 = Inr R"
        using add_other_total [OF vB] by blast
      ultimately show ?thesis using that by (simp add: add_def)
    qed
    then have a2: "(\<exists>e. add A B = Inl e) \<longleftrightarrow> ?differ"
      using a1 by (metis Inl_Inr_False)
    have "\<exists>R. subtract A B = Inr R" if "\<not> ?differ"
      using subtract_loop_total [OF vB] that by (simp add: subtract_def)
    then have s2: "(\<exists>e. subtract A B = Inl e) \<longleftrightarrow> ?differ"
      using s1 by (metis Inl_Inr_False)
    have "\<exists>R. multiply A B = Inr R" if "num_cols A = num_rows B"
      using multiply_outer_total [OF vA vB] that by (simp add: multiply_def)
    then have m2: "(\<exists>e. multiply A B = Inl e) \<longleftrightarrow> num_cols A \<noteq> num_rows B"
      using m1 by (metis Inl_Inr_False)
    from a2 s2 m2 show ?thesis by simp
  qed
  from a1 s1 m1 total show ?thesis by blast
qed

theorem dimension_mismatch_witness:
  "well_formed example_A \<and> well_formed example_C
   \<and> num_rows example_A = 2 \<and> num_rows example_C = 3
   \<and> add example_A example_C = Inl CannotAdd
   \<and> subtract example_A example_C = Inl CannotSubtract
   \<and> multiply example_A example_C = Inl CannotMultiply"
proof -
  have n: "num_rows example_A = 2" "num_cols example_A = 2" "num_rows example_C = 3"
    by code_simp+
  from dimension_mismatch [of example_A example_C] n
  have "add example_A example_C = Inl CannotAdd"
    "subtract example_A example_C = Inl CannotSubtract"
    "multiply example_A example_C = Inl CannotMultiply"
    by simp_all
  with n show ?thesis by (simp add: well_formed_example_A well_formed_example_C)
qed

text \<open>
  Claim C8.  As stated (a parenthesized line with a non-integer field fails) the claim
  does not hold: only the first three fields are read, and the line \<open>(1,2,3,x)\<close> is
  accepted.
\<close>

theorem extra_field_accepted_counterexample:
  "parse_matrix_file example_fs ''extra.txt'' = Inr [''rows=2'', ''cols=4'', ''(1,2,3,x)'']
   \<and> startswith ''(1,2,3,x)'' (CHR ''('') \<and> endswith ''(1,2,3,x)'' (CHR '')'')
   \<and> py_split (CHR '','') (butlast (tl ''(1,2,3,x)'')) = [''1'', ''2'', ''3'', ''x'']
   \<and> py_int (py_strip ''x'') = None
   \<and> from_file example_fs ''extra.txt''
        = Inr \<lparr>elements = [(key_of 1 2, 3)], num_rows = 2, num_cols = 4\<rparr>"
  by code_simp

text \<open>
  Claim C8, amended.  In \<open>from_file\<close>, a trimmed non-blank line after the two header
  lines that does not both start with \<open>(\<close> and end with \<open>)\<close> raises a format error, and a
  parenthesized line with fewer than 3 comma-separated fields, or with a non-integer
  field among its first three, raises a format error; the line \<open>(1,2)\<close> does.  With such
  a line in the file \<open>from_file\<close> returns no matrix.
\<close>

theorem malformed_element_line_fails:
  assumes "parse_matrix_file fs path = Inr lines" and "line \<in> set (drop 2 lines)"
    and "\<not> (startswith line (CHR ''('') \<and> endswith line (CHR '')''))
     \<or> length (py_split (CHR '','') (butlast (tl line))) < 3
     \<or> (\<exists>i<3. py_int (py_strip (py_split (CHR '','') (butlast (tl line)) ! i)) = None)"
  shows "(\<exists>e. from_file fs path = Inl e
           \<and> (e = InvalidDimensions path
               \<or> (\<exists>l \<in> set (drop 2 lines). e = InvalidElementFormat l \<or> e = InvalidElementEntry l)))
     \<and> parse_element_line line =
         (if startswith line (CHR ''('') \<and> endswith line (CHR '')'')
          then Inl (InvalidElementEntry line) else Inl (InvalidElementFormat line))
     \<and> parse_element_line ''(1,2)'' = Inl (InvalidElementEntry ''(1,2)'')"
proof -
  from assms(3) obtain e where e: "parse_element_line line = Inl e"
    using parse_element_line_bad by blast
  have kind: "parse_element_line line =
         (if startswith line (CHR ''('') \<and> endswith line (CHR '')'')
          then Inl (InvalidElementEntry line) else Inl (InvalidElementFormat line))"
    using e unfolding parse_element_line_def
    by (auto split: if_splits list.splits option.splits)
  from from_file_fails [OF assms(1) assms(2) e] obtain e' where e': "from_file fs path = Inl e'"
    by blast
  from assms(2) have "length lines \<ge> 2" by (cases "length lines \<ge> 2") auto
  with e' assms(1) have
    "e' = InvalidDimensions path
      \<or> (\<exists>nr nc. from_file_loop (drop 2 lines) (SparseMatrix_init nr nc) = Inl e')"
    unfolding from_file_def by (auto split: option.splits)
  then have "e' = InvalidDimensions path
      \<or> (\<exists>l \<in> set (drop 2 lines). e' = InvalidElementFormat l \<or> e' = InvalidElementEntry l)"
    using from_file_loop_error parse_element_line_error by blast
  with e'
  have 1: "\<exists>e. from_file fs path = Inl e
           \<and> (e = InvalidDimensions path
               \<or> (\<exists>l \<in> set (drop 2 lines). e = InvalidElementFormat l \<or> e = InvalidElementEntry l))"
    by blast
  have 2: "parse_element_line ''(1,2)'' = Inl (InvalidElementEntry ''(1,2)'')"
    by code_simp
  from 1 kind 2 show ?thesis by blast
qed

theorem malformed_element_line_fails_witness:
  "parse_matrix_file example_fs ''short.txt'' = Inr [''rows=2'', ''cols=2'', ''(1,2)'']
   \<and> ''(1,2)'' \<in> set (drop 2 [''rows=2'', ''cols=2'', ''(1,2)''])
   \<and> length (py_split (CHR '','') (butlast (tl ''(1,2)''))) < 3
   \<and> from_file example_fs ''short.txt'' = Inl (InvalidElementEntry ''(1,2)'')"
proof -
  have l: "length (py_split (CHR '','') (butlast (tl ''(1,2)''))) < 3" by code_simp
  have m: "''(1,2)'' \<in> set (drop 2 [''rows=2'', ''cols=2'', ''(1,2)''])" by simp
  from malformed_element_line_fails [OF example_fs_short m] l
  obtain e where "from_file example_fs ''short.txt'' = Inl e"
    "e = InvalidDimensions ''short.txt''
      \<or> (\<exists>l \<in> set (drop 2 [''rows=2'', ''cols=2'', ''(1,2)'']).
            e = InvalidElementFormat l \<or> e = InvalidElementEntry l)"
    by auto
  moreover have "from_file example_fs ''short.txt'' = Inl (InvalidElementEntry ''(1,2)'')"
    by code_simp
  ultimately show ?thesis using example_fs_short l m by simp
qed

text \<open>
  Claim C2.  For \<open>A\<close> and \<open>B\<close> with \<open>A.num_cols == B.num_rows\<close>, \<open>multiply(A, B)\<close> returns
  a matrix of \<open>A.num_rows\<close> rows and \<open>B.num_cols\<close> columns whose \<open>get_element(i, j)\<close> is
  the sum over all \<open>k\<close> of \<open>A.get_element(i, k) * B.get_element(k, j)\<close>.  Only finitely
  many \<open>k\<close> have a non-zero product, and the sum may be taken over them or over any
  finite set that contains them.
\<close>

theorem multiply_is_matrix_product:
  assumes "well_formed A" and "well_formed B" and "in_bounds A" and "in_bounds B"
    and "num_cols A = num_rows B"
  shows "\<exists>R. multiply A B = Inr R \<and> num_rows R = num_rows A \<and> num_cols R = num_cols B
     \<and> (\<forall>i j. finite {k. get_element A i k * get_element B k j \<noteq> 0}
           \<and> get_element R i j =
               (\<Sum>k\<in>{k. get_element A i k * get_element B k j \<noteq> 0}.
                   get_element A i k * get_element B k j))
     \<and> (\<forall>i j K. finite K \<and> {k. get_element A i k * get_element B k j \<noteq> 0} \<subseteq> K \<longrightarrow>
           get_element R i j = (\<Sum>k\<in>K. get_element A i k * get_element B k j))"
proof -
  let ?init = "SparseMatrix_init (num_rows A) (num_cols B)"
  from assms(1) have vA: "list_all (\<lambda>(key, val). valid_key key) (elements A)"
    by (simp add: well_formed_def)
  from assms(2) have vB: "list_all (\<lambda>(key, val). valid_key key) (elements B)"
    by (simp add: well_formed_def)
  obtain R where run: "multiply_outer (elements A) (elements B) ?init = Inr R"
    using multiply_outer_total [OF vA vB] by blast
  then have m: "multiply A B = Inr R" using assms(5) by (simp add: multiply_def)
  have "num_rows R = num_rows ?init \<and> num_cols R = num_cols ?init"
    by (rule multiply_outer_shape [OF run])
       (simp_all add: in_bounds_rows [OF assms(3)] in_bounds_cols [OF assms(4)]
          SparseMatrix_init_def)
  then have shape: "num_rows R = num_rows A" "num_cols R = num_cols B"
    by (simp_all add: SparseMatrix_init_def)
  have any: "get_element R i j = (\<Sum>k\<in>K. get_element A i k * get_element B k j)"
    if "finite K" "{k. get_element A i k * get_element B k j \<noteq> 0} \<subseteq> K" for i j K
    using assms(1) assms(2) m that by (rule multiply_get)
  have own: "get_element R i j =
      (\<Sum>k\<in>{k. get_element A i k * get_element B k j \<noteq> 0}.
          get_element A i k * get_element B k j)" for i j
    by (rule any [OF product_support_finite]) simp
  from m shape own any product_support_finite show ?thesis by blast
qed

theorem multiply_is_matrix_product_witness:
  "well_formed example_A \<and> well_formed example_B \<and> in_bounds example_A \<and> in_bounds example_B
   \<and> num_cols example_A = num_rows example_B
   \<and> (\<exists>R. multiply example_A example_B = Inr R \<and> num_rows R = 2 \<and> num_cols R = 2
        \<and> get_element R 1 0 =
            (\<Sum>k\<in>{0, 1}. get_element example_A 1 k * get_element example_B k 0)
        \<and> get_element R 1 0 = 3)"
proof -
  have n: "num_cols example_A = num_rows example_B" "num_rows example_A = 2"
    "num_cols example_B = 2"
    by (simp_all add: example_A_eq example_B_eq)
  from multiply_is_matrix_product [OF well_formed_example_A well_formed_example_B
      in_bounds_example_A in_bounds_example_B n(1)]
  obtain R where R: "multiply example_A example_B = Inr R"
    "num_rows R = num_rows example_A" "num_cols R = num_cols example_B"
    "\<And>i j K. finite K \<and> {k. get_element example_A i k * get_element example_B k j \<noteq> 0} \<subseteq> K \<Longrightarrow>
        get_element R i j = (\<Sum>k\<in>K. get_element example_A i k * get_element example_B k j)"
    by blast
  have g: "get_element example_A 1 0 = 3" "get_element example_A 1 1 = 4"
    "get_element example_B 0 0 = 1" "get_element example_B 1 0 = 0"
    by code_simp+
  have z: "get_element example_A 1 k = 0" if "k \<noteq> 0" "k \<noteq> 1" for k
  proof -
    have "key_of 1 k \<notin> fst ` set (elements example_A)"
      using that unfolding example_A_def
      by (simp add: elements_set_element SparseMatrix_init_def key_of_inject)
    then show ?thesis by (rule get_element_absent)
  qed
  have sub: "{k. get_element example_A 1 k * get_element example_B k 0 \<noteq> 0} \<subseteq> {0, 1}"
    using z by auto
  have s: "get_element R 1 0 =
      (\<Sum>k\<in>{0, 1}. get_element example_A 1 k * get_element example_B k 0)"
    by (rule R(4)) (use sub in simp)
  then have "get_element R 1 0 = 3" using g by simp
  with R(1) R(2) R(3) s n have
    "\<exists>R. multiply example_A example_B = Inr R \<and> num_rows R = 2 \<and> num_cols R = 2
        \<and> get_element R 1 0 =
            (\<Sum>k\<in>{0, 1}. get_element example_A 1 k * get_element example_B k 0)
        \<and> get_element R 1 0 = 3"
    by (intro exI [of _ R]) simp
  then show ?thesis
    by (intro conjI well_formed_example_A well_formed_example_B in_bounds_example_A
        in_bounds_example_B n(1))
qed



end
